theory Spec2Isabelle
  imports Complex_Main "HOL-Library.Word" "HOL-Library.Signed_Division"
    "HOL-Library.List_Lexorder" "HOL-Library.Char_ord" "HOL-Library.Sublist"
    "HOL-Library.Multiset" "HOL-Library.AList"
begin

section \<open>The Cluster model of the monitoring console (package models, type Cluster)\<close>

text \<open>
  A shallow embedding of the methods of \<^verbatim>\<open>Cluster\<close>. Each method takes the cluster
  as a value and returns the changed cluster next to its result. What the Go code reads
  from outside the process (the clock, name resolution, a node's answer to an info
  command, the outcome of a mail delivery, the outcome of saving a backup record) is an
  argument of the model, so every theorem holds for every such outcome.

  A Go map the code ranges over is an association list with distinct keys; a map that
  is only read and written by key is a function to \<open>option\<close>. Go leaves the order
  of \<^verbatim>\<open>range\<close> over a map unspecified; the order of the list stands for the order
  in which one \<^verbatim>\<open>range\<close> yields the entries, and the theorems hold for every list.
\<close>

subsection \<open>Go library functions\<close>

text \<open>\<^verbatim>\<open>strconv.Itoa\<close>: the decimal digits of an integer.\<close>

fun digits :: "nat \<Rightarrow> string" where
  "digits n =
     (if n < 10 then [''0123456789'' ! n]
      else digits (n div 10) @ [''0123456789'' ! (n mod 10)])"

declare digits.simps [simp del]

definition Itoa :: "int \<Rightarrow> string" where
  "Itoa i = (if i < 0 then CHR ''-'' # digits (nat (- i)) else digits (nat i))"

text \<open>\<^verbatim>\<open>strings.Join\<close>.\<close>

fun Join :: "string list \<Rightarrow> string \<Rightarrow> string" where
  "Join [] sep = []"
| "Join [x] sep = x"
| "Join (x # y # ys) sep = x @ sep @ Join (y # ys) sep"

text \<open>\<^verbatim>\<open>strings.Contains\<close>: \<open>sub\<close> occurs in \<open>s\<close> as a contiguous run.\<close>

fun Contains :: "string \<Rightarrow> string \<Rightarrow> bool" where
  "Contains [] sub = (sub = [])"
| "Contains (c # cs) sub = (prefix sub (c # cs) \<or> Contains cs sub)"

text \<open>
  \<^verbatim>\<open>time.Duration\<close> is a signed 64-bit count of nanoseconds, and so is Go's
  \<^verbatim>\<open>int\<close> on the amd64 target the package is built for: both are \<open>64 word\<close>, read
  with \<open>sint\<close>; multiplication wraps. A \<^verbatim>\<open>time.Time\<close> is an instant, counted in
  nanoseconds as an unbounded integer. \<^verbatim>\<open>Time.Sub\<close> saturates at the largest and
  the smallest duration; \<^verbatim>\<open>time.Since t\<close> is \<^verbatim>\<open>time.Now().Sub(t)\<close>.
\<close>

type_synonym Duration = "64 word"
type_synonym Time = int

definition Second :: Duration where
  "Second = 1000000000"

definition maxDuration :: int where
  "maxDuration = 2 ^ 63 - 1"

definition minDuration :: int where
  "minDuration = - (2 ^ 63)"

definition time_Sub :: "Time \<Rightarrow> Time \<Rightarrow> Duration" where
  "time_Sub t u =
     (let d = t - u in
      if d > maxDuration then word_of_int maxDuration
      else if d < minDuration then word_of_int minDuration
      else word_of_int d)"

definition time_Since :: "Time \<Rightarrow> Time \<Rightarrow> Duration" where
  "time_Since now t = time_Sub now t"

subsection \<open>Data model\<close>

text \<open>\<^verbatim>\<open>as.Host\<close> of the database client, and \<^verbatim>\<open>as.NewHost\<close>.\<close>

record Host =
  Name :: string
  TLSName :: string
  Port :: int

definition NewHost :: "string \<Rightarrow> int \<Rightarrow> Host" where
  "NewHost name port = \<lparr>Name = name, TLSName = [], Port = port\<rparr>"

text \<open>
  Modelled from the spec: \<^verbatim>\<open>common.Stats\<close>, a map from stat names to untyped
  values, with its typed accessors \<^verbatim>\<open>TryInt\<close> and \<^verbatim>\<open>TryFloat\<close> (package common is
  not among the sources). The spec describes the values as a tagged variant (integer,
  float, string, nested map) and the accessors as typed reads with a default. A
  \<^verbatim>\<open>float64\<close> is a \<open>real\<close> here: the code below only compares these values. Reading
  a key that is absent yields \<^verbatim>\<open>nil\<close>, as in Go.
\<close>

datatype "value" = VNil | VInt int | VFloat real | VStr string | VMap "(string \<times> value) list"

type_synonym Stats = "string \<Rightarrow> value option"

definition stat :: "Stats \<Rightarrow> string \<Rightarrow> value" where
  "stat s k = (case s k of None \<Rightarrow> VNil | Some v \<Rightarrow> v)"

definition TryInt :: "Stats \<Rightarrow> string \<Rightarrow> int \<Rightarrow> int" where
  "TryInt s name dflt = (case stat s name of VInt i \<Rightarrow> i | _ \<Rightarrow> dflt)"

definition TryFloat :: "Stats \<Rightarrow> string \<Rightarrow> real \<Rightarrow> real" where
  "TryFloat s name dflt =
     (case stat s name of VFloat f \<Rightarrow> f | VInt i \<Rightarrow> of_int i | _ \<Rightarrow> dflt)"

text \<open>
  Modelled from the spec: the type \<^verbatim>\<open>Node\<close> (its file is not among the sources). A
  node is identified by host:port; it has a status (on or off), a build, the cluster
  name it reports and a map of namespaces, each with its stats. \<open>node_ptr\<close> is the
  identity of the \<^verbatim>\<open>*Node\<close>: Go compares two \<^verbatim>\<open>*Node\<close> values by it. The map of a
  cluster never holds a \<^verbatim>\<open>nil\<close> node (every entry is the result of
  \<^verbatim>\<open>newNode\<close>).
\<close>

datatype nodeStatus = On | Off

record Node =
  node_ptr :: nat
  origHost :: Host
  node_build :: string
  node_status :: nodeStatus
  node_clusterName :: string
  node_namespaces :: "string \<Rightarrow> Stats option"

definition Node_Address :: "Node \<Rightarrow> string" where
  "Node_Address n = Name (origHost n) @ '':'' @ Itoa (Port (origHost n))"

definition Node_Build :: "Node \<Rightarrow> string" where
  "Node_Build n = node_build n"

definition Node_Status :: "Node \<Rightarrow> nodeStatus" where
  "Node_Status n = node_status n"

definition Node_ClusterName :: "Node \<Rightarrow> string" where
  "Node_ClusterName n = node_clusterName n"

definition NamespaceByName :: "Node \<Rightarrow> string \<Rightarrow> Stats option" where
  "NamespaceByName n name = node_namespaces n name"

text \<open>
  Modelled from the spec: \<^verbatim>\<open>common.Alert\<close> and \<^verbatim>\<open>common.AlertBucket\<close> (package
  common is not among the sources). The bucket is a bounded FIFO; each appended alert
  gets the next monotonic id; \<^verbatim>\<open>DrainNewAlerts\<close> returns every alert with id greater
  than the last-drained cursor and advances the cursor. An alert carries an id, a
  timestamp, the node address, a status label, a description and the cluster id it is
  stamped with when surfaced.
\<close>

record Alert =
  alert_Id :: int
  Timestamp :: Time
  NodeAddress :: string
  alert_Status :: string
  Desc :: string
  alert_ClusterId :: string

record AlertBucket =
  capacity :: nat
  bucket :: "Alert list"
  lastId :: int
  cursor :: int

definition NewAlertBucket :: "nat \<Rightarrow> AlertBucket" where
  "NewAlertBucket n = \<lparr>capacity = n, bucket = [], lastId = 0, cursor = 0\<rparr>"

definition Register :: "AlertBucket \<Rightarrow> Alert \<Rightarrow> AlertBucket" where
  "Register b a =
     (let a' = a\<lparr>alert_Id := lastId b + 1\<rparr>;
          q = bucket b @ [a']
      in b\<lparr>bucket := drop (length q - capacity b) q, lastId := lastId b + 1\<rparr>)"

definition DrainNewAlerts :: "AlertBucket \<Rightarrow> Alert list \<times> AlertBucket" where
  "DrainNewAlerts b =
     (let new = filter (\<lambda>a. cursor b < alert_Id a) (bucket b)
      in (new, b\<lparr>cursor := foldr max (map alert_Id new) (cursor b)\<rparr>))"

text \<open>
  Modelled from the spec: \<^verbatim>\<open>common.BackupRestore\<close> (package common is not among the
  sources), with the fields that \<^verbatim>\<open>Backup\<close> and \<^verbatim>\<open>Restore\<close> pass to
  \<^verbatim>\<open>NewBackupRestore\<close>, and the two handles built on it. The statuses are the four
  of the spec: in progress, ok, failed, aborted.
\<close>

datatype BackupRestoreType = BackupRestoreTypeBackup | BackupRestoreTypeRestore

datatype BackupRestoreStatus =
  BackupStatusInProgress | BackupStatusOk | BackupStatusFailed | BackupStatusAborted

record BackupRestore =
  Type :: BackupRestoreType
  ClusterId :: string
  Namespace :: string
  DestinationAddress :: string
  Username :: string
  Password :: string
  DestinationPath :: string
  Sets :: string
  MetadataOnly :: bool
  TerminateOnChange :: bool
  ScanPriority :: int
  Status :: BackupRestoreStatus

type_synonym Backup = BackupRestore

record Restore = BackupRestore +
  Threads :: int
  MissingRecordsOnly :: bool
  IgnoreGenerationNum :: bool

text \<open>
  The database client as the cluster sees it: the seeds it was given and whether it is
  connected. Modelled from the spec: the options of \<^verbatim>\<open>common.Config\<close> the cluster
  reads, \<^verbatim>\<open>AMC.UpdateInterval\<close> and \<^verbatim>\<open>AMC.InactiveDurBeforeRemoval\<close> in seconds (Go
  \<^verbatim>\<open>int\<close>) and \<^verbatim>\<open>Mailer.Host\<close>.
\<close>

record Client =
  client_seeds :: "Host list"
  IsConnected :: bool

record Config =
  AMC_UpdateInterval :: "64 word"
  AMC_InactiveDurBeforeRemoval :: "64 word"
  Mailer_Host :: string

record Cluster =
  config :: Config
  client :: "Client option"
  nodes :: "(Host \<times> Node) list"
  lastUpdate :: Time
  lastPing :: Time
  uuid :: string
  updateInterval :: "64 word"
  seeds :: "Host list"
  clusterAlias :: "string option"
  permanent :: bool
  alerts :: AlertBucket
  activeBackup :: "Backup option"
  activeRestore :: "Restore option"

subsection \<open>Construction and lifecycle\<close>

text \<open>
  \<^verbatim>\<open>newCluster\<close>. \<open>uid\<close> is the fresh \<^verbatim>\<open>uuid.NewV4()\<close>; \<open>clientNodes\<close> is the
  map of the nodes made by \<^verbatim>\<open>newNode\<close> from \<^verbatim>\<open>client.GetNodes()\<close>, read only when
  there is a client. The two timestamps start at the zero \<^verbatim>\<open>Time\<close>.
\<close>

definition newCluster ::
  "Config \<Rightarrow> Client option \<Rightarrow> string option \<Rightarrow> Host list \<Rightarrow> string \<Rightarrow> (Host \<times> Node) list \<Rightarrow> Cluster"
where
  "newCluster cfg cl als sds uid clientNodes =
     \<lparr>config = cfg,
      client = cl,
      nodes = (case cl of None \<Rightarrow> [] | Some _ \<Rightarrow> clientNodes),
      lastUpdate = 0,
      lastPing = 0,
      uuid = uid,
      updateInterval = AMC_UpdateInterval cfg,
      seeds = sds,
      clusterAlias = (case als of None \<Rightarrow> None | Some a \<Rightarrow> if length a = 0 then None else Some a),
      permanent = False,
      alerts = NewAlertBucket 50,
      activeBackup = None,
      activeRestore = None\<rparr>"

definition setPermanent :: "Cluster \<Rightarrow> bool \<Rightarrow> Cluster" where
  "setPermanent c v = c\<lparr>permanent := v\<rparr>"

definition Cluster_Id :: "Cluster \<Rightarrow> string" where
  "Cluster_Id c = uuid c"

definition Cluster_Status :: "Cluster \<Rightarrow> string" where
  "Cluster_Status c =
     (case client c of
        None \<Rightarrow> ''off''
      | Some cl \<Rightarrow> if IsConnected cl then ''on'' else ''off'')"


definition updateLastestPing :: "Cluster \<Rightarrow> Time \<Rightarrow> Cluster" where
  "updateLastestPing c now = c\<lparr>lastPing := now\<rparr>"

definition shouldAutoRemove :: "Cluster \<Rightarrow> Time \<Rightarrow> bool" where
  "shouldAutoRemove c now =
     (\<not> permanent c
      \<and> 0 < sint (AMC_InactiveDurBeforeRemoval (config c))
      \<and> sint (AMC_InactiveDurBeforeRemoval (config c) * Second)
          < sint (time_Since now (lastPing c)))"

subsection \<open>Nodes and builds\<close>

definition Nodes :: "Cluster \<Rightarrow> Node list" where
  "Nodes c = map snd (nodes c)"

text \<open>
  \<^verbatim>\<open>versionList[build] = append(versionList[build], node.Address())\<close>: the entry of
  an absent key starts from the empty slice and is added to the map.
\<close>

definition appendAt :: "(string \<times> string list) list \<Rightarrow> string \<Rightarrow> string \<Rightarrow> (string \<times> string list) list" where
  "appendAt m k v =
     AList.update k ((case map_of m k of None \<Rightarrow> [] | Some l \<Rightarrow> l) @ [v]) m"

definition NodeCompatibility :: "Cluster \<Rightarrow> string" where
  "NodeCompatibility c =
     (let versionList =
            foldl (\<lambda>m node. appendAt m (Node_Build node) (Node_Address node)) [] (Nodes c)
      in if length versionList \<le> 1 then ''homogeneous'' else ''compatible'')"

definition NodeList :: "Cluster \<Rightarrow> string list" where
  "NodeList c = sort (map Node_Address (Nodes c))"

definition FindNodeByAddress :: "Cluster \<Rightarrow> string \<Rightarrow> Node option" where
  "FindNodeByAddress c address = find (\<lambda>node. Node_Address node = address) (Nodes c)"

subsection \<open>Adding and removing nodes\<close>

text \<open>
  A Go \<^verbatim>\<open>error\<close> is \<open>string option\<close>: \<open>None\<close> is \<^verbatim>\<open>nil\<close>, \<open>Some msg\<close> an error
  with that message. A call either returns or panics.
\<close>

datatype 'a outcome = Returned 'a | Panic

text \<open>\<^verbatim>\<open>client.Cluster().AddSeeds\<close> of the database client.\<close>

definition AddSeeds :: "Client \<Rightarrow> Host list \<Rightarrow> Client" where
  "AddSeeds cl hosts = cl\<lparr>client_seeds := client_seeds cl @ hosts\<rparr>"

text \<open>
  \<^verbatim>\<open>AddNode\<close>. \<open>resolveHost\<close> is the resolver (not among the sources): the list of
  host addresses of a name, and an error. \<open>fresh\<close> is the node \<^verbatim>\<open>newNode(c, nil)\<close>
  allocates. Without a client, \<^verbatim>\<open>c.client.Cluster()\<close> dereferences \<^verbatim>\<open>nil\<close>.
\<close>

definition AddNode ::
  "Cluster \<Rightarrow> (string \<Rightarrow> string list \<times> string option) \<Rightarrow> string \<Rightarrow> int \<Rightarrow> Node
     \<Rightarrow> string option outcome \<times> Cluster"
where
  "AddNode c resolveHost address port fresh =
     (let (hostAddrList, err) = resolveHost address in
      if err \<noteq> None \<or> length hostAddrList = 0 then (Returned err, c)
      else if list_ex (\<lambda>address. map_of (nodes c) (NewHost address port) \<noteq> None) hostAddrList
      then (Returned (Some ''Node already exists''), c)
      else
        (let host = NewHost (hd hostAddrList) port in
         case client c of
           None \<Rightarrow> (Panic, c)
         | Some cl \<Rightarrow>
             (Returned None,
              c\<lparr>client := Some (AddSeeds cl [host]),
                nodes := AList.update host (fresh\<lparr>origHost := host\<rparr>) (nodes c)\<rparr>)))"

text \<open>
  \<^verbatim>\<open>RemoveNodeByAddress\<close>: the new map takes every entry whose node is not the one
  found.
\<close>

definition RemoveNodeByAddress :: "Cluster \<Rightarrow> string \<Rightarrow> string option \<times> Cluster" where
  "RemoveNodeByAddress c address =
     (case FindNodeByAddress c address of
        None \<Rightarrow> (Some (''Node '' @ address @ '' not found.''), c)
      | Some node \<Rightarrow>
          if Node_Status node = On
          then (Some (''Node '' @ address @ '' is active. Only inactive nodes can be removed.''), c)
          else
            (None,
             c\<lparr>nodes :=
                 foldl (\<lambda>newNodes (host, oldNode).
                          if node_ptr node \<noteq> node_ptr oldNode
                          then AList.update host oldNode newNodes else newNodes)
                   [] (nodes c)\<rparr>))"

subsection \<open>Backup and restore\<close>

definition NewBackupRestore ::
  "BackupRestoreType \<Rightarrow> string \<Rightarrow> string \<Rightarrow> string \<Rightarrow> string \<Rightarrow> string \<Rightarrow> string \<Rightarrow> string
     \<Rightarrow> bool \<Rightarrow> bool \<Rightarrow> int \<Rightarrow> BackupRestoreStatus \<Rightarrow> BackupRestore"
where
  "NewBackupRestore ty clusterId namespace destinationAddress username password
       destinationPath sets metadataOnly terminateOnChange scanPriority st =
     \<lparr>Type = ty, ClusterId = clusterId, Namespace = namespace,
      DestinationAddress = destinationAddress, Username = username, Password = password,
      DestinationPath = destinationPath, Sets = sets, MetadataOnly = metadataOnly,
      TerminateOnChange = terminateOnChange, ScanPriority = scanPriority, Status = st\<rparr>"

text \<open>
  \<^verbatim>\<open>Backup\<close> and \<^verbatim>\<open>Restore\<close>. \<open>save\<close> is the outcome of persisting the record and
  \<open>execute\<close> the error of starting it in the background (neither is among the
  sources). The result is the pair the Go method returns, next to the cluster.
\<close>

definition Backup ::
  "Cluster \<Rightarrow> string \<Rightarrow> string \<Rightarrow> string \<Rightarrow> string \<Rightarrow> string \<Rightarrow> string \<Rightarrow> bool \<Rightarrow> bool \<Rightarrow> int
     \<Rightarrow> (Backup \<Rightarrow> string option) \<Rightarrow> (Backup \<Rightarrow> string option)
     \<Rightarrow> (Backup option \<times> string option) \<times> Cluster"
where
  "Backup c namespace destinationAddress destinationPath username password sets
       metadataOnly terminateOnChange scanPriority save execute =
     (if (case activeBackup c of
            None \<Rightarrow> False
          | Some b \<Rightarrow> Status b = BackupStatusInProgress)
      then ((None, Some ''Another backup operation already exists and is in progress.''), c)
      else
        (let b = NewBackupRestore BackupRestoreTypeBackup (Cluster_Id c) namespace
                   destinationAddress username password destinationPath sets metadataOnly
                   terminateOnChange scanPriority BackupStatusInProgress
         in case save b of
              Some err \<Rightarrow> ((None, Some err), c\<lparr>activeBackup := None\<rparr>)
            | None \<Rightarrow> ((Some b, execute b), c\<lparr>activeBackup := Some b\<rparr>)))"

definition CurrentBackup :: "Cluster \<Rightarrow> Backup option" where
  "CurrentBackup c = activeBackup c"

definition Restore ::
  "Cluster \<Rightarrow> string \<Rightarrow> string \<Rightarrow> string \<Rightarrow> string \<Rightarrow> string \<Rightarrow> int \<Rightarrow> bool \<Rightarrow> bool
     \<Rightarrow> (Restore \<Rightarrow> string option) \<Rightarrow> (Restore \<Rightarrow> string option)
     \<Rightarrow> (Restore option \<times> string option) \<times> Cluster"
where
  "Restore c namespace destinationAddress destinationPath username password threads
       missingRecordsOnly ignoreGenerationNum save execute =
     (if (case activeRestore c of
            None \<Rightarrow> False
          | Some r \<Rightarrow> Status r = BackupStatusInProgress)
      then ((None, Some ''Another backup operation already exists and is in progress.''), c)
      else
        (let r = BackupRestore.extend
                   (NewBackupRestore BackupRestoreTypeRestore (Cluster_Id c) namespace
                      destinationAddress username password destinationPath [] False False 2
                      BackupStatusInProgress)
                   (Restore.fields threads missingRecordsOnly ignoreGenerationNum)
         in case save r of
              Some err \<Rightarrow> ((None, Some err), c\<lparr>activeRestore := None\<rparr>)
            | None \<Rightarrow> ((Some r, execute r), c\<lparr>activeRestore := Some r\<rparr>)))"

definition CurrentRestore :: "Cluster \<Rightarrow> Restore option" where
  "CurrentRestore c = activeRestore c"

subsection \<open>Build details and the supported version\<close>

text \<open>
  \<^verbatim>\<open>version.Compare\<close> of the version library: the operator applied to the library's
  three-way comparison of the two versions. The comparison itself, \<open>cmp\<close>, is an
  argument: a negative, zero or positive number.
\<close>

definition version_Compare :: "(string \<Rightarrow> string \<Rightarrow> int) \<Rightarrow> string \<Rightarrow> string \<Rightarrow> string \<Rightarrow> bool" where
  "version_Compare cmp version1 version2 operator =
     (if operator = ''>'' then cmp version1 version2 > 0
      else if operator = ''>='' then cmp version1 version2 \<ge> 0
      else if operator = ''<='' then cmp version1 version2 \<le> 0
      else if operator = ''=='' then cmp version1 version2 = 0
      else if operator = ''<'' then cmp version1 version2 < 0
      else False)"

text \<open>
  Modelled from the spec: the dotted ordering of versions, for the examples. The
  version library is not part of the repository; what is modelled is its ordering on
  plain versions only: the empty string, or one to four numbers of one to three
  decimal digits each, separated by single dots (\<^verbatim>\<open>4.5.1\<close>, \<^verbatim>\<open>3.15.0.2\<close>). The string is
  split at the dots, every field is read as a number, and the numbers are compared
  from the left, a missing number counting as zero: \<^verbatim>\<open>4.6\<close> and \<^verbatim>\<open>4.6.0\<close> are equal, and
  the empty string is the version zero. On any other string (prefixes, suffixes,
  letters) the value of \<open>dottedCompare\<close> is left open.
\<close>

definition isDigit :: "char \<Rightarrow> bool" where
  "isDigit ch = (ch \<in> set ''0123456789'')"

fun fields :: "string \<Rightarrow> string list" where
  "fields [] = [[]]"
| "fields (ch # v) =
     (if ch = CHR ''.'' then [] # fields v
      else (ch # hd (fields v)) # tl (fields v))"

definition number :: "string \<Rightarrow> nat" where
  "number field = foldl (\<lambda>n ch. 10 * n + (of_char ch - 48)) 0 field"

definition components :: "string \<Rightarrow> nat list" where
  "components v = map number (fields v)"

definition plain :: "string \<Rightarrow> bool" where
  "plain v =
     (v = []
      \<or> length (fields v) \<le> 4
        \<and> list_all (\<lambda>field. field \<noteq> [] \<and> length field \<le> 3 \<and> list_all isDigit field)
             (fields v))"

fun compareComponents :: "nat list \<Rightarrow> nat list \<Rightarrow> int" where
  "compareComponents [] [] = 0"
| "compareComponents [] (y # ys) = (if 0 < y then - 1 else compareComponents [] ys)"
| "compareComponents (x # xs) [] = (if 0 < x then 1 else compareComponents xs [])"
| "compareComponents (x # xs) (y # ys) =
     (if x < y then - 1 else if y < x then 1 else compareComponents xs ys)"

definition dottedCompare :: "string \<Rightarrow> string \<Rightarrow> int" where
  "dottedCompare a b =
     (if plain a \<and> plain b then compareComponents (components a) (components b)
      else undefined)"

text \<open>
  \<^verbatim>\<open>BuildDetails\<close>: one loop over the nodes fills the version list and tracks the
  latest build; the call also refreshes the last ping.
\<close>

record BuildDetailsResult =
  version_list :: "(string \<times> string list) list"
  latest_build_no :: string

definition BuildDetails ::
  "(string \<Rightarrow> string \<Rightarrow> int) \<Rightarrow> Cluster \<Rightarrow> Time \<Rightarrow> BuildDetailsResult \<times> Cluster"
where
  "BuildDetails cmp c now =
     (let (versionList, latestBuild) =
            foldl (\<lambda>(versionList, latestBuild) node.
                     let build = Node_Build node
                     in (appendAt versionList build (Node_Address node),
                         if version_Compare cmp build latestBuild ''>''
                         then build else latestBuild))
              ([], []) (Nodes c)
      in (\<lparr>version_list = versionList, latest_build_no = latestBuild\<rparr>,
          updateLastestPing c now))"

definition unsupportedMessage :: "string \<Rightarrow> string list \<Rightarrow> string \<Rightarrow> string" where
  "unsupportedMessage oldest nodeList ver =
     ''Database cluster is not supported. Latest supported version is: `v'' @ oldest
       @ ''`. Nodes ['' @ Join nodeList '', '' @ ''] are at `v'' @ ver @ ''`''"

text \<open>
  \<^verbatim>\<open>versionSupported\<close>. \<open>rangeOrder\<close> gives the order in which \<^verbatim>\<open>range\<close> yields
  the entries of the version list, which Go leaves open: a permutation of the entries.
  The loop returns at the first version below \<open>oldest\<close>.
\<close>

definition versionSupported ::
  "(string \<Rightarrow> string \<Rightarrow> int) \<Rightarrow> ((string \<times> string list) list \<Rightarrow> (string \<times> string list) list)
     \<Rightarrow> Cluster \<Rightarrow> Time \<Rightarrow> string \<Rightarrow> string option \<times> Cluster"
where
  "versionSupported cmp rangeOrder c now oldest =
     (let (buildDetails, c') = BuildDetails cmp c now;
          verList = version_list buildDetails
      in (case find (\<lambda>(ver, nodeList). version_Compare cmp ver oldest ''<'') (rangeOrder verList) of
            Some (ver, nodeList) \<Rightarrow> Some (unsupportedMessage oldest nodeList ver)
          | None \<Rightarrow> None,
          c'))"

text \<open>
  The builds in the order in which the loop of \<^verbatim>\<open>versionSupported\<close> meets them: the
  keys of the version list, as \<^verbatim>\<open>range\<close> yields them.
\<close>

definition rangedBuilds ::
  "(string \<Rightarrow> string \<Rightarrow> int) \<Rightarrow> ((string \<times> string list) list \<Rightarrow> (string \<times> string list) list)
     \<Rightarrow> Cluster \<Rightarrow> Time \<Rightarrow> string list"
where
  "rangedBuilds cmp rangeOrder c now =
     map fst (rangeOrder (version_list (fst (BuildDetails cmp c now))))"

subsection \<open>Info commands on every node\<close>

text \<open>
  \<^verbatim>\<open>RequestInfoAll\<close>. \<open>RequestInfo p cmd\<close> is the answer of the node at \<open>p\<close> to
  \<^verbatim>\<open>node.RequestInfo(1, cmd)\<close>: a map of responses and an error. Every node answers
  in a goroutine of its own and sends one \<^verbatim>\<open>nodeCommand\<close> to the channel;
  \<open>arrival\<close> gives the order in which the channel delivers them, a permutation. The
  result map is keyed by the \<^verbatim>\<open>*Node\<close>, here by \<open>node_ptr\<close>.
\<close>

record nodeCommand =
  nc_Node :: nat
  nc_Res :: "(string \<times> string) list"
  nc_Err :: "string option"

definition response :: "(string \<times> string) list \<Rightarrow> string \<Rightarrow> string" where
  "response res cmd = (case map_of res cmd of None \<Rightarrow> [] | Some v \<Rightarrow> v)"

definition gather ::
  "string \<Rightarrow> (nat \<Rightarrow> string option) \<times> string list \<Rightarrow> nodeCommand
     \<Rightarrow> (nat \<Rightarrow> string option) \<times> string list"
where
  "gather cmd acc r =
     (let (res, errsStr) = acc;
          res = res(nc_Node r \<mapsto> [])
      in case nc_Err r of
           Some e \<Rightarrow> (res(nc_Node r \<mapsto> e), errsStr @ [e])
         | None \<Rightarrow>
             if length (nc_Res r) > 0 \<and> length (response (nc_Res r) cmd) > 0
             then (res(nc_Node r \<mapsto> response (nc_Res r) cmd), errsStr)
             else (res, errsStr))"

text \<open>What one \<^verbatim>\<open>nodeCommand\<close> leaves in the result map under its node.\<close>

definition answer :: "string \<Rightarrow> nodeCommand \<Rightarrow> string" where
  "answer cmd r = (case nc_Err r of Some e \<Rightarrow> e | None \<Rightarrow> response (nc_Res r) cmd)"

definition RequestInfoAll ::
  "(nat \<Rightarrow> string \<Rightarrow> (string \<times> string) list \<times> string option)
     \<Rightarrow> (nodeCommand list \<Rightarrow> nodeCommand list)
     \<Rightarrow> Cluster \<Rightarrow> string \<Rightarrow> (nat \<Rightarrow> string option) \<times> string option"
where
  "RequestInfoAll RequestInfo arrival c cmd =
     (let nodes = Nodes c;
          sent = map (\<lambda>node.
                        let (result, err) = RequestInfo (node_ptr node) cmd
                        in \<lparr>nc_Node = node_ptr node, nc_Res = result, nc_Err = err\<rparr>)
                   nodes;
          (res, errsStr) = foldl (gather cmd) (Map.empty, []) (arrival sent)
      in (res, if length errsStr > 0 then Some (Join errsStr '', '') else None))"

text \<open>
  The \<^verbatim>\<open>nodeCommand\<close> of every node as the goroutines send them, in the order of
  \<^verbatim>\<open>Nodes()\<close>; the channel delivers them in the order \<open>arrival\<close> gives.
\<close>

definition nodeCommands ::
  "(nat \<Rightarrow> string \<Rightarrow> (string \<times> string) list \<times> string option) \<Rightarrow> Cluster \<Rightarrow> string
     \<Rightarrow> nodeCommand list"
where
  "nodeCommands RequestInfo c cmd =
     map (\<lambda>node.
            let (result, err) = RequestInfo (node_ptr node) cmd
            in \<lparr>nc_Node = node_ptr node, nc_Res = result, nc_Err = err\<rparr>)
       (Nodes c)"

subsection \<open>Namespace aggregation\<close>

text \<open>
  The record under \<^verbatim>\<open>least_available_pct\<close> is a map with the keys \<^verbatim>\<open>node\<close> and
  \<^verbatim>\<open>value\<close>. The two type assertions of the Go code panic on a value of another
  type.
\<close>

definition entry :: "(string \<times> value) list \<Rightarrow> string \<Rightarrow> value" where
  "entry m k = (case map_of m k of None \<Rightarrow> VNil | Some v \<Rightarrow> v)"

definition lower :: "real \<Rightarrow> string \<Rightarrow> (string \<times> value) list \<Rightarrow> (string \<times> value) list outcome" where
  "lower availPct address leastDiskPct =
     (case entry leastDiskPct ''value'' of
        VNil \<Rightarrow> Returned [(''node'', VStr address), (''value'', VFloat availPct)]
      | VFloat v \<Rightarrow>
          if availPct < v
          then Returned [(''node'', VStr address), (''value'', VFloat availPct)]
          else Returned leastDiskPct
      | _ \<Rightarrow> Panic)"

definition leastAvailablePct :: "Stats \<Rightarrow> Stats \<Rightarrow> string \<Rightarrow> (string \<times> value) list outcome" where
  "leastAvailablePct stats nsStats address =
     (let leastDiskPct = [(''node'', VNil), (''value'', VNil)];
          availPct = TryFloat stats ''available_pct'' (- 1)
      in if 0 \<le> availPct
         then (case stat nsStats ''least_available_pct'' of
                 VNil \<Rightarrow> lower availPct address leastDiskPct
               | VMap lpct \<Rightarrow> lower availPct address lpct
               | _ \<Rightarrow> Panic)
         else Returned leastDiskPct)"

text \<open>
  The body of the two loops of \<^verbatim>\<open>NamespaceInfo\<close>, for one node and one namespace
  name. \<open>AggregateStats\<close> and \<open>Comma\<close> are the two functions of package common (not
  among the sources), as arguments. \<^verbatim>\<open>ns.Stats()\<close> hands out a copy of the stats of
  the namespace.
\<close>

definition tombstones :: "(int \<Rightarrow> string \<Rightarrow> string) \<Rightarrow> Stats \<Rightarrow> string \<Rightarrow> string \<Rightarrow> value" where
  "tombstones Comma nsStats objects stones =
     VStr (Comma (TryInt nsStats objects 0) '','' @ '' / '' @ Comma (TryInt nsStats stones 0) '','')"

definition namespaceOfNode ::
  "(Stats \<Rightarrow> Stats \<Rightarrow> Stats) \<Rightarrow> (int \<Rightarrow> string \<Rightarrow> string) \<Rightarrow> Cluster \<Rightarrow> Node
     \<Rightarrow> (string \<Rightarrow> Stats option) outcome \<Rightarrow> string \<Rightarrow> (string \<Rightarrow> Stats option) outcome"
where
  "namespaceOfNode AggregateStats Comma c node acc nsName =
     (case acc of
        Panic \<Rightarrow> Panic
      | Returned res \<Rightarrow>
          (case NamespaceByName node nsName of
             None \<Rightarrow> Returned res
           | Some stats \<Rightarrow>
               (let nsStats = (case res nsName of
                                 None \<Rightarrow> stats
                               | Some nsStats \<Rightarrow> AggregateStats nsStats stats)
                in case leastAvailablePct stats nsStats (Node_Address node) of
                     Panic \<Rightarrow> Panic
                   | Returned leastDiskPct \<Rightarrow>
                       (let nsStats = nsStats(''master-objects-tombstones'' \<mapsto>
                                         tombstones Comma nsStats ''master-objects'' ''master_tombstones'');
                            nsStats = nsStats(''prole-objects-tombstones'' \<mapsto>
                                         tombstones Comma nsStats ''prole-objects'' ''prole_tombstones'');
                            nsStats = nsStats(''least_available_pct'' \<mapsto> VMap leastDiskPct);
                            nsStats = nsStats(''cluster_status'' \<mapsto> VStr (Cluster_Status c))
                        in Returned (res(nsName \<mapsto> nsStats))))))"

definition NamespaceInfo ::
  "(Stats \<Rightarrow> Stats \<Rightarrow> Stats) \<Rightarrow> (int \<Rightarrow> string \<Rightarrow> string) \<Rightarrow> Cluster \<Rightarrow> string list
     \<Rightarrow> (string \<Rightarrow> Stats option) outcome"
where
  "NamespaceInfo AggregateStats Comma c namespaces =
     (let nodes = Nodes c
      in case foldl (\<lambda>acc node.
                       foldl (namespaceOfNode AggregateStats Comma c node) acc namespaces)
                (Returned Map.empty) nodes of
           Panic \<Rightarrow> Panic
         | Returned res \<Rightarrow>
             Returned (\<lambda>nsName.
               case res nsName of
                 None \<Rightarrow> None
               | Some stats \<Rightarrow>
                   Some (stats(''repl-factor'' \<mapsto>
                           VInt (TryInt stats ''repl-factor'' 0 sdiv int (length nodes))))))"

text \<open>
  The record under \<^verbatim>\<open>least_available_pct\<close> of a namespace in the result of
  \<^verbatim>\<open>NamespaceInfo\<close>: \<open>None\<close> when the call panicked or the namespace is not in
  the result.
\<close>

definition leastAvailableOf :: "(string \<Rightarrow> Stats option) outcome \<Rightarrow> string \<Rightarrow> value option" where
  "leastAvailableOf result nsName =
     (case result of
        Panic \<Rightarrow> None
      | Returned res \<Rightarrow>
          (case res nsName of
             None \<Rightarrow> None
           | Some stats \<Rightarrow> Some (stat stats ''least_available_pct'')))"

text \<open>
  What the two loops do to the record of one namespace, for the proofs: \<open>keep\<close> is
  one round on the record (\<open>None\<close> is the record with both fields \<^verbatim>\<open>nil\<close>),
  \<open>leastRecord\<close> the value stored for it, \<open>reports\<close> the address and the
  \<^verbatim>\<open>available_pct\<close> (or the default -1) of the nodes that have the namespace, in the
  order of \<^verbatim>\<open>Nodes()\<close>. \<open>keepsLeast\<close> says that \<^verbatim>\<open>AggregateStats\<close> leaves the
  record alone when the stats added have none, and \<open>reportsNoRecord\<close> that a node's
  own stats have none.
\<close>

definition availablePct :: "Node \<Rightarrow> string \<Rightarrow> real" where
  "availablePct node nsName =
     (case NamespaceByName node nsName of
        None \<Rightarrow> - 1
      | Some stats \<Rightarrow> TryFloat stats ''available_pct'' (- 1))"

definition keep :: "(string \<times> real) option \<Rightarrow> string \<times> real \<Rightarrow> (string \<times> real) option" where
  "keep r x =
     (if 0 \<le> snd x
      then (case r of None \<Rightarrow> Some x | Some y \<Rightarrow> if snd x < snd y then Some x else Some y)
      else None)"

definition leastRecord :: "(string \<times> real) option \<Rightarrow> value" where
  "leastRecord r =
     (case r of
        None \<Rightarrow> VMap [(''node'', VNil), (''value'', VNil)]
      | Some (a, v) \<Rightarrow> VMap [(''node'', VStr a), (''value'', VFloat v)])"

definition recordOf :: "value \<Rightarrow> (string \<times> real) option" where
  "recordOf v =
     (case v of
        VMap m \<Rightarrow>
          (case entry m ''node'' of
             VStr a \<Rightarrow> (case entry m ''value'' of VFloat x \<Rightarrow> Some (a, x) | _ \<Rightarrow> None)
           | _ \<Rightarrow> None)
      | _ \<Rightarrow> None)"

definition keepsLeast :: "(Stats \<Rightarrow> Stats \<Rightarrow> Stats) \<Rightarrow> bool" where
  "keepsLeast AggregateStats =
     (\<forall>s t. stat t ''least_available_pct'' = VNil \<longrightarrow>
        stat (AggregateStats s t) ''least_available_pct'' = stat s ''least_available_pct'')"

definition reportsNoRecord :: "Node \<Rightarrow> bool" where
  "reportsNoRecord node =
     (\<forall>name stats. NamespaceByName node name = Some stats \<longrightarrow>
        stat stats ''least_available_pct'' = VNil)"

definition wellFormed :: "(string \<Rightarrow> Stats option) \<Rightarrow> bool" where
  "wellFormed res =
     (\<forall>name st. res name = Some st \<longrightarrow> (\<exists>r. stat st ''least_available_pct'' = leastRecord r))"

definition tracked :: "(string \<Rightarrow> Stats option) \<Rightarrow> string \<Rightarrow> (string \<times> real) option" where
  "tracked res nsName =
     (case res nsName of None \<Rightarrow> None | Some st \<Rightarrow> recordOf (stat st ''least_available_pct''))"

definition reports :: "Node list \<Rightarrow> string \<Rightarrow> (string \<times> real) list" where
  "reports ns nsName =
     map (\<lambda>node. (Node_Address node, availablePct node nsName))
       (filter (\<lambda>node. NamespaceByName node nsName \<noteq> None) ns)"

subsection \<open>Mail notifications\<close>

definition Cluster_Name :: "Cluster \<Rightarrow> string option" where
  "Cluster_Name c =
     map_option Node_ClusterName
       (find (\<lambda>node. Node_ClusterName node \<noteq> [] \<and> Node_ClusterName node \<noteq> ''null'') (Nodes c))"

definition Alias :: "Cluster \<Rightarrow> string option" where
  "Alias c =
     (case clusterAlias c of
        None \<Rightarrow> Cluster_Name c
      | Some a \<Rightarrow> if length a > 0 then Some a else Cluster_Name c)"

text \<open>
  The delivery loop of one alert: \<^verbatim>\<open>for i := 0; i < 5; i++\<close>, left at the first
  \<^verbatim>\<open>nil\<close> error. \<open>send i\<close> is the error of the call of \<^verbatim>\<open>mailer.SendMail\<close> made
  in round \<open>i\<close>. The result lists the errors of the calls made, in order.
\<close>

function deliver :: "(nat \<Rightarrow> string option) \<Rightarrow> nat \<Rightarrow> string option list" where
  "deliver send i =
     (if i < 5
      then (case send i of
              None \<Rightarrow> [None]
            | Some err \<Rightarrow> Some err # deliver send (i + 1))
      else [])"
  by pat_completeness auto
termination
  by (relation "measure (\<lambda>(send, i). 5 - i)") auto

declare deliver.simps [simp del]

text \<open>
  \<^verbatim>\<open>SendEmailNotifications\<close>. \<open>SendMail j\<close> is the mailer as the goroutine of the
  \<open>j\<close>-th drained alert meets it: template, subject, context and round give the error of
  the call. \<open>ToUpper\<close> and \<open>sanitizeHTML\<close> are the two library functions. The result
  lists, for every alert a delivery was started for, the context and the calls made.
\<close>

record delivery =
  mail_context :: "(string \<times> string) list"
  calls :: "string option list"

definition alertContext :: "(string \<Rightarrow> string) \<Rightarrow> string \<Rightarrow> Alert \<Rightarrow> (string \<times> string) list" where
  "alertContext ToUpper clusterName alert =
     [(''Title'', ''Alert''),
      (''Cluster'', clusterName),
      (''Node'', NodeAddress alert),
      (''Status'', ''<font color='' @ [CHR 0x27] @ alert_Status alert @ [CHR 0x27]
                     @ ''><strong>'' @ ToUpper (alert_Status alert) @ ''</strong></font>''),
      (''Message'', Desc alert)]"

definition SendEmailNotifications ::
  "(nat \<Rightarrow> string \<Rightarrow> string \<Rightarrow> (string \<times> string) list \<Rightarrow> nat \<Rightarrow> string option)
     \<Rightarrow> (string \<Rightarrow> string) \<Rightarrow> (string \<Rightarrow> string) \<Rightarrow> Cluster \<Rightarrow> delivery list \<times> Cluster"
where
  "SendEmailNotifications SendMail ToUpper sanitizeHTML c =
     (let (newAlerts, drained) = DrainNewAlerts (alerts c);
          c = c\<lparr>alerts := drained\<rparr>
      in if length (Mailer_Host (config c)) = 0 then ([], c)
         else
           (let clusterName = (case Alias c of None \<Rightarrow> Cluster_Id c | Some a \<Rightarrow> a)
            in (map (\<lambda>(j, alert).
                       let msg = alertContext ToUpper clusterName alert
                       in \<lparr>mail_context = msg,
                           calls = deliver
                                     (SendMail j ''alerts/generic.html''
                                        (''AMC Alert: '' @ sanitizeHTML (response msg ''Message'')) msg)
                                     0\<rparr>)
                  (enumerate 0 newAlerts),
                c)))"

subsection \<open>Example values\<close>

text \<open>
  A cluster of three nodes for the concrete cases below: two nodes at build 4.5.1, one of
  them off and without \<^verbatim>\<open>available_pct\<close> in its namespace, and one node at 4.6.0.
\<close>

definition exampleConfig :: Config where
  "exampleConfig =
     \<lparr>AMC_UpdateInterval = 5, AMC_InactiveDurBeforeRemoval = 1800,
      Mailer_Host = ''smtp.example.com''\<rparr>"

definition exampleClient :: Client where
  "exampleClient = \<lparr>client_seeds = [NewHost ''10.0.0.1'' 3000], IsConnected = True\<rparr>"

definition nodeA :: Node where
  "nodeA =
     \<lparr>node_ptr = 1, origHost = NewHost ''10.0.0.1'' 3000, node_build = ''4.5.1'',
      node_status = On, node_clusterName = ''prod'',
      node_namespaces =
        [''test'' \<mapsto> [''available_pct'' \<mapsto> VInt 10, ''master-objects'' \<mapsto> VInt 1200]]\<rparr>"

definition nodeB :: Node where
  "nodeB =
     \<lparr>node_ptr = 2, origHost = NewHost ''10.0.0.2'' 3000, node_build = ''4.5.1'',
      node_status = Off, node_clusterName = ''prod'',
      node_namespaces = [''test'' \<mapsto> [''master-objects'' \<mapsto> VInt 800]]\<rparr>"

definition nodeC :: Node where
  "nodeC =
     \<lparr>node_ptr = 3, origHost = NewHost ''10.0.0.3'' 3000, node_build = ''4.6.0'',
      node_status = On, node_clusterName = ''prod'', node_namespaces = Map.empty\<rparr>"

definition nodeD :: Node where
  "nodeD =
     \<lparr>node_ptr = 4, origHost = NewHost [] 0, node_build = [], node_status = Off,
      node_clusterName = [], node_namespaces = Map.empty\<rparr>"

definition exampleCluster :: Cluster where
  "exampleCluster =
     newCluster exampleConfig (Some exampleClient) None [NewHost ''10.0.0.1'' 3000] ''c-1''
       [(NewHost ''10.0.0.1'' 3000, nodeA), (NewHost ''10.0.0.2'' 3000, nodeB),
        (NewHost ''10.0.0.3'' 3000, nodeC)]"

text \<open>
  \<^verbatim>\<open>strings.ToUpper\<close> on ASCII letters, two alerts in the bucket of the example
  cluster, the same cluster without a mailer host, and a mailer that accepts the third
  call for the first alert and none for any other.
\<close>

definition upperASCII :: "string \<Rightarrow> string" where
  "upperASCII s =
     map (\<lambda>ch. case map_of (zip ''abcdefghijklmnopqrstuvwxyz'' ''ABCDEFGHIJKLMNOPQRSTUVWXYZ'') ch of
                None \<Rightarrow> ch
              | Some up \<Rightarrow> up) s"

definition alertDown :: Alert where
  "alertDown =
     \<lparr>alert_Id = 0, Timestamp = 100, NodeAddress = ''10.0.0.2:3000'', alert_Status = ''red'',
      Desc = ''Node is down'', alert_ClusterId = []\<rparr>"

definition alertUp :: Alert where
  "alertUp =
     \<lparr>alert_Id = 0, Timestamp = 200, NodeAddress = ''10.0.0.2:3000'', alert_Status = ''green'',
      Desc = ''Node is up'', alert_ClusterId = []\<rparr>"

definition alertedCluster :: Cluster where
  "alertedCluster =
     exampleCluster\<lparr>alerts := Register (Register (NewAlertBucket 50) alertDown) alertUp\<rparr>"

definition unconfiguredCluster :: Cluster where
  "unconfiguredCluster = alertedCluster\<lparr>config := exampleConfig\<lparr>Mailer_Host := []\<rparr>\<rparr>"

definition exampleMailer ::
  "nat \<Rightarrow> string \<Rightarrow> string \<Rightarrow> (string \<times> string) list \<Rightarrow> nat \<Rightarrow> string option" where
  "exampleMailer j template subject msg i =
     (if j = 0 \<and> 2 \<le> i then None else Some ''connection refused'')"

text \<open>
  Answers to an info command: the node at 1 answers, the two others fail. A second
  cluster whose first node runs the older build 4.4.0.
\<close>

definition exampleInfo :: "nat \<Rightarrow> string \<Rightarrow> (string \<times> string) list \<times> string option" where
  "exampleInfo p cmd =
     (if p = 1 then ([(cmd, ''4.5.1'')], None)
      else if p = 2 then ([], Some ''i/o timeout'')
      else ([], Some ''connection reset''))"

definition olderCluster :: Cluster where
  "olderCluster =
     exampleCluster\<lparr>nodes :=
       [(NewHost ''10.0.0.1'' 3000, nodeA\<lparr>node_build := ''4.4.0''\<rparr>),
        (NewHost ''10.0.0.2'' 3000, nodeB), (NewHost ''10.0.0.3'' 3000, nodeC)]\<rparr>"




text \<open>
  The example cluster with a backup started on it, and then a restore as well.
\<close>

definition backingUp :: Cluster where
  "backingUp =
     snd (Backup exampleCluster ''test'' ''10.0.0.9'' ''/backups'' ''admin'' ''secret'' [] False
            False 2 (\<lambda>_. None) (\<lambda>_. None))"

definition restoring :: Cluster where
  "restoring =
     snd (Restore backingUp ''test'' ''10.0.0.9'' ''/backups'' ''admin'' ''secret'' 4 False False
            (\<lambda>_. None) (\<lambda>_. None))"

section \<open>Properties\<close>

subsection \<open>Example values, evaluated\<close>

lemmas example_defs =
  exampleCluster_def exampleConfig_def exampleClient_def nodeA_def nodeB_def nodeC_def
  nodeD_def
  newCluster_def NewAlertBucket_def NewHost_def Nodes_def Node_Address_def Node_Status_def
  Node_Build_def Itoa_def digits.simps

subsection \<open>Automatic removal\<close>

lemma sint_seconds:
  fixes w :: "64 word"
  assumes "0 < sint w" and "sint w * 1000000000 \<le> maxDuration"
  shows "sint (w * Second) = sint w * 1000000000"
proof -
  have s: "sint Second = 1000000000"
    by (simp add: Second_def)
  have "sint (w * Second) = signed_take_bit 63 (sint w * sint Second)"
    by (simp add: sint_word_ariths)
  also have "\<dots> = sint w * 1000000000"
    using assms unfolding s maxDuration_def
    by (intro signed_take_bit_int_eq_self) auto
  finally show ?thesis .
qed

lemma sint_word_of_int_64:
  "- (2 ^ 63) \<le> d \<Longrightarrow> d \<le> 2 ^ 63 - 1 \<Longrightarrow> sint (word_of_int d :: 64 word) = d"
  by (simp only: sint_sbintrunc') (simp add: signed_take_bit_int_eq_self)

lemma sint_time_Sub:
  "sint (time_Sub t u) =
     (if t - u > maxDuration then maxDuration
      else if t - u < minDuration then minDuration else t - u)"
proof -
  define d where "d = t - u"
  have "sint (word_of_int maxDuration :: 64 word) = maxDuration"
    by (rule sint_word_of_int_64) (simp_all add: maxDuration_def)
  moreover have "sint (word_of_int minDuration :: 64 word) = minDuration"
    by (rule sint_word_of_int_64) (simp_all add: minDuration_def)
  moreover have "\<not> d > maxDuration \<Longrightarrow> \<not> d < minDuration \<Longrightarrow>
      sint (word_of_int d :: 64 word) = d"
    by (rule sint_word_of_int_64) (simp_all add: maxDuration_def minDuration_def)
  ultimately show ?thesis
    unfolding time_Sub_def Let_def d_def [symmetric] by simp
qed

text \<open>
  As long as the configured number of seconds, taken in nanoseconds, fits a
  \<^verbatim>\<open>time.Duration\<close> (up to 9223372036 seconds), the check is the one the comment in
  the code describes.
\<close>

lemma shouldAutoRemove_in_range:
  assumes "sint (AMC_InactiveDurBeforeRemoval (config c)) * 1000000000 \<le> maxDuration"
  shows "shouldAutoRemove c now =
     (\<not> permanent c
      \<and> 0 < sint (AMC_InactiveDurBeforeRemoval (config c))
      \<and> sint (AMC_InactiveDurBeforeRemoval (config c)) * 1000000000 < now - lastPing c)"
proof (cases "0 < sint (AMC_InactiveDurBeforeRemoval (config c))")
  case False
  then show ?thesis by (simp add: shouldAutoRemove_def)
next
  case True
  let ?x = "sint (AMC_InactiveDurBeforeRemoval (config c)) * 1000000000"
  have x: "sint (AMC_InactiveDurBeforeRemoval (config c) * Second) = ?x"
    using True assms by (rule sint_seconds)
  have "?x mod 1000000000 = 0" by simp
  moreover have "maxDuration mod 1000000000 \<noteq> 0" by (simp add: maxDuration_def)
  ultimately have "?x \<noteq> maxDuration" by metis
  with assms have lt: "?x < maxDuration" by simp
  have pos: "minDuration < ?x" using True by (simp add: minDuration_def)
  show ?thesis
    unfolding shouldAutoRemove_def time_Since_def x sint_time_Sub
    using lt pos True by auto
qed

lemma permanent_never_removed: "permanent c \<Longrightarrow> \<not> shouldAutoRemove c now"
  by (simp add: shouldAutoRemove_def)

text \<open>
  C2. The claim: \<^verbatim>\<open>shouldAutoRemove\<close> is true exactly when the cluster is not
  permanent, \<^verbatim>\<open>InactiveDurBeforeRemoval\<close> is positive and the time since the last ping
  exceeds it. The code multiplies the configured seconds by \<^verbatim>\<open>time.Second\<close> in 64
  bits. With 9223372037 seconds configured the product wraps to a negative duration, and
  a cluster that is not permanent and was pinged at this very instant is reported for
  removal, although no time has passed.
\<close>

theorem shouldAutoRemove_wraps_at_9223372037:
  "shouldAutoRemove
     ((newCluster (exampleConfig\<lparr>AMC_InactiveDurBeforeRemoval := 9223372037\<rparr>)
         None None [] ''c-2'' [])\<lparr>lastPing := 1000\<rparr>) 1000
   \<and> \<not> (9223372037 * 1000000000 < (1000 :: int) - 1000)
   \<and> sint ((9223372037 :: 64 word) * Second) = - 9223372036709551616"
  by (simp add: shouldAutoRemove_def newCluster_def exampleConfig_def Second_def
      time_Since_def time_Sub_def maxDuration_def minDuration_def)

subsection \<open>Backup and restore\<close>

text \<open>
  C4. While the active backup (the active restore) is in progress, a call to
  \<^verbatim>\<open>Backup\<close> (to \<^verbatim>\<open>Restore\<close>) returns no handle and an error, and leaves the cluster
  as it was: \<^verbatim>\<open>CurrentBackup\<close> (\<^verbatim>\<open>CurrentRestore\<close>) is still the handle in progress.
\<close>

theorem Backup_Restore_rejected_while_in_progress:
  "(\<forall>b. activeBackup c = Some b \<and> Status b = BackupStatusInProgress \<longrightarrow>
      Backup c ns da dp u pw sets mo toc sp save execute
        = ((None, Some ''Another backup operation already exists and is in progress.''), c)
      \<and> CurrentBackup (snd (Backup c ns da dp u pw sets mo toc sp save execute)) = Some b)
   \<and> (\<forall>r. activeRestore c = Some r \<and> Status r = BackupStatusInProgress \<longrightarrow>
      Restore c ns da dp u pw th mro ign save' execute'
        = ((None, Some ''Another backup operation already exists and is in progress.''), c)
      \<and> CurrentRestore (snd (Restore c ns da dp u pw th mro ign save' execute')) = Some r)"
proof (intro conjI allI impI)
  fix b
  assume "activeBackup c = Some b \<and> Status b = BackupStatusInProgress"
  then show "Backup c ns da dp u pw sets mo toc sp save execute
        = ((None, Some ''Another backup operation already exists and is in progress.''), c)"
    by (simp add: Backup_def)
  moreover assume "activeBackup c = Some b \<and> Status b = BackupStatusInProgress"
  ultimately show "CurrentBackup (snd (Backup c ns da dp u pw sets mo toc sp save execute)) = Some b"
    by (simp add: CurrentBackup_def)
next
  fix r
  assume "activeRestore c = Some r \<and> Status r = BackupStatusInProgress"
  then show "Restore c ns da dp u pw th mro ign save' execute'
        = ((None, Some ''Another backup operation already exists and is in progress.''), c)"
    by (simp add: Restore_def)
  moreover assume "activeRestore c = Some r \<and> Status r = BackupStatusInProgress"
  ultimately show "CurrentRestore (snd (Restore c ns da dp u pw th mro ign save' execute')) = Some r"
    by (simp add: CurrentRestore_def)
qed

text \<open>
  The sixth scenario of the spec: a backup is started on the example cluster; a second
  call before it completes is refused, and so is a second restore.
\<close>

lemma backingUp_eval:
  "backingUp = exampleCluster\<lparr>activeBackup := Some (NewBackupRestore BackupRestoreTypeBackup ''c-1'' ''test'' ''10.0.0.9'' ''admin'' ''secret'' ''/backups'' [] False False 2 BackupStatusInProgress)\<rparr>"
  by (simp add: backingUp_def Backup_def exampleCluster_def newCluster_def Cluster_Id_def Let_def)

lemma restoring_eval:
  "activeBackup restoring = Some (NewBackupRestore BackupRestoreTypeBackup ''c-1'' ''test'' ''10.0.0.9'' ''admin'' ''secret'' ''/backups'' [] False False 2 BackupStatusInProgress)
  \<and> activeRestore restoring = Some (BackupRestore.extend
                   (NewBackupRestore BackupRestoreTypeRestore ''c-1'' ''test''
                      ''10.0.0.9'' ''admin'' ''secret'' ''/backups'' [] False False 2
                      BackupStatusInProgress)
                   (Restore.fields 4 False False))"
  by (simp add: restoring_def Restore_def backingUp_eval exampleCluster_def newCluster_def Cluster_Id_def Let_def)

theorem Backup_Restore_rejected_witness:
  "Backup restoring ''test'' ''10.0.0.8'' ''/other'' ''admin'' ''secret'' ''s1'' True False 1
       (\<lambda>_. None) (\<lambda>_. None)
     = ((None, Some ''Another backup operation already exists and is in progress.''), restoring)
   \<and> Restore restoring ''test'' ''10.0.0.8'' ''/other'' ''admin'' ''secret'' 8 True False
       (\<lambda>_. None) (\<lambda>_. None)
     = ((None, Some ''Another backup operation already exists and is in progress.''), restoring)
   \<and> map_option DestinationPath (CurrentBackup restoring) = Some ''/backups''
   \<and> map_option Threads (CurrentRestore restoring) = Some 4"
  using restoring_eval
    Backup_Restore_rejected_while_in_progress [of restoring "''test''" "''10.0.0.8''" "''/other''"
      "''admin''" "''secret''" "''s1''" True False 1 "\<lambda>_. None" "\<lambda>_. None" 8 True False
      "\<lambda>_. None" "\<lambda>_. None"]
  by (simp add: CurrentBackup_def CurrentRestore_def NewBackupRestore_def
      BackupRestore.extend_def Restore.fields_def)
subsection \<open>Removing a node\<close>

lemma set_update_subset: "set (AList.update k v al) \<subseteq> insert (k, v) (set al)"
  by (induction al) auto

lemma removal_subset:
  "set (foldl (\<lambda>newNodes (host, oldNode).
                 if P oldNode then AList.update host oldNode newNodes else newNodes) acc xs)
     \<subseteq> set acc \<union> {(h, n). (h, n) \<in> set xs \<and> P n}"
proof (induction xs arbitrary: acc)
  case Nil
  then show ?case by simp
next
  case (Cons x xs)
  obtain h n where x: "x = (h, n)" by (cases x)
  show ?case
  proof (cases "P n")
    case True
    have "set (AList.update h n acc) \<subseteq> insert (h, n) (set acc)"
      by (rule set_update_subset)
    with Cons [of "AList.update h n acc"] True x show ?thesis by auto
  next
    case False
    with Cons [of acc] x show ?thesis by auto
  qed
qed

lemma removed_node_gone:
  assumes "RemoveNodeByAddress c address = (None, c')"
      and "FindNodeByAddress c address = Some node"
      and "m \<in> set (Nodes c')"
  shows "node_ptr m \<noteq> node_ptr node \<and> m \<in> set (Nodes c)"
proof -
  from assms(1,2) have c': "nodes c' =
      foldl (\<lambda>newNodes (host, oldNode).
               if node_ptr node \<noteq> node_ptr oldNode
               then AList.update host oldNode newNodes else newNodes) [] (nodes c)"
    by (auto simp: RemoveNodeByAddress_def split: if_splits)
  from assms(3) obtain h where "(h, m) \<in> set (nodes c')"
    by (auto simp: Nodes_def)
  with removal_subset [of "\<lambda>n. node_ptr node \<noteq> node_ptr n" "[]" "nodes c"] c'
  have "(h, m) \<in> set (nodes c) \<and> node_ptr node \<noteq> node_ptr m" by auto
  then show ?thesis by (force simp: Nodes_def)
qed

lemma find_unique:
  assumes "distinct (map f xs)"
  shows "(\<exists>x. find (\<lambda>x. f x = a) xs = Some x \<and> Q x) = (\<exists>x \<in> set xs. f x = a \<and> Q x)"
proof
  assume "\<exists>x. find (\<lambda>x. f x = a) xs = Some x \<and> Q x"
  then show "\<exists>x \<in> set xs. f x = a \<and> Q x"
    by (auto simp: find_Some_iff)
next
  assume "\<exists>x \<in> set xs. f x = a \<and> Q x"
  then obtain x where x: "x \<in> set xs" "f x = a" "Q x" by blast
  then obtain y where y: "find (\<lambda>x. f x = a) xs = Some y"
    by (cases "find (\<lambda>x. f x = a) xs") (auto simp: find_None_iff)
  then have "y \<in> set xs" "f y = a" by (auto simp: find_Some_iff)
  with x assms have "y = x"
    by (metis distinct_map inj_onD)
  with x y show "\<exists>x. find (\<lambda>x. f x = a) xs = Some x \<and> Q x" by simp
qed

lemma RemoveNodeByAddress_result:
  "fst (RemoveNodeByAddress c address) = None
     \<longleftrightarrow> (\<exists>node. FindNodeByAddress c address = Some node \<and> Node_Status node = Off)"
  by (cases "FindNodeByAddress c address")
     (auto simp: RemoveNodeByAddress_def intro: nodeStatus.exhaust)





text \<open>
  When the addresses of the nodes are distinct, the node found is the only one with the
  address: the call succeeds exactly when a node with that address exists and is off,
  and afterwards the address is no longer among those of \<^verbatim>\<open>Nodes()\<close>.
\<close>

lemma RemoveNodeByAddress_distinct_addresses:
  "((fst (RemoveNodeByAddress c address) = None)
      = (\<exists>node. FindNodeByAddress c address = Some node \<and> Node_Status node = Off))
   \<and> (distinct (map Node_Address (Nodes c)) \<longrightarrow>
        (fst (RemoveNodeByAddress c address) = None)
          = (\<exists>node \<in> set (Nodes c). Node_Address node = address \<and> Node_Status node = Off))
   \<and> (\<forall>node. fst (RemoveNodeByAddress c address) = None
          \<and> FindNodeByAddress c address = Some node \<longrightarrow>
        (\<forall>m \<in> set (Nodes (snd (RemoveNodeByAddress c address))). node_ptr m \<noteq> node_ptr node))
   \<and> (distinct (map Node_Address (Nodes c)) \<and> fst (RemoveNodeByAddress c address) = None \<longrightarrow>
        address \<notin> set (map Node_Address (Nodes (snd (RemoveNodeByAddress c address)))))
   \<and> (fst (RemoveNodeByAddress c address) \<noteq> None \<longrightarrow>
        snd (RemoveNodeByAddress c address) = c)"
proof (intro conjI impI allI)
  show iff: "(fst (RemoveNodeByAddress c address) = None)
      = (\<exists>node. FindNodeByAddress c address = Some node \<and> Node_Status node = Off)"
    by (rule RemoveNodeByAddress_result)
  show "(fst (RemoveNodeByAddress c address) = None)
          = (\<exists>node \<in> set (Nodes c). Node_Address node = address \<and> Node_Status node = Off)"
    if "distinct (map Node_Address (Nodes c))"
    unfolding iff FindNodeByAddress_def using that by (rule find_unique)
  show "\<forall>m \<in> set (Nodes (snd (RemoveNodeByAddress c address))). node_ptr m \<noteq> node_ptr node"
    if "fst (RemoveNodeByAddress c address) = None \<and> FindNodeByAddress c address = Some node"
    for node
    using that removed_node_gone [of c address "snd (RemoveNodeByAddress c address)" node]
    by (metis prod.collapse)
  show "address \<notin> set (map Node_Address (Nodes (snd (RemoveNodeByAddress c address))))"
    if h: "distinct (map Node_Address (Nodes c)) \<and> fst (RemoveNodeByAddress c address) = None"
  proof
    assume "address \<in> set (map Node_Address (Nodes (snd (RemoveNodeByAddress c address))))"
    then obtain m where m: "m \<in> set (Nodes (snd (RemoveNodeByAddress c address)))"
        "Node_Address m = address" by auto
    from h iff obtain node where node: "FindNodeByAddress c address = Some node" by auto
    then have n: "node \<in> set (Nodes c)" "Node_Address node = address"
      by (auto simp: FindNodeByAddress_def find_Some_iff)
    have r: "RemoveNodeByAddress c address = (None, snd (RemoveNodeByAddress c address))"
      using h by (metis prod.collapse)
    from removed_node_gone [OF r node m(1)]
    have "node_ptr m \<noteq> node_ptr node" "m \<in> set (Nodes c)" by simp_all
    with n m(2) h have "m = node" by (metis distinct_map inj_onD)
    with \<open>node_ptr m \<noteq> node_ptr node\<close> show False by simp
  qed
  show "snd (RemoveNodeByAddress c address) = c"
    if "fst (RemoveNodeByAddress c address) \<noteq> None"
    using that by (auto simp: RemoveNodeByAddress_def split: option.splits if_splits)
qed

subsection \<open>Adding a node\<close>

lemma update_mem: "(k, v) \<in> set (AList.update k v al)"
  by (induction al) auto

lemma AddNode_success:
  assumes "fst (resolveHost address) = a # as"
      and "AddNode c resolveHost address port fresh = (Returned None, c')"
  shows "\<exists>cl. client c = Some cl
           \<and> c' = c\<lparr>client := Some (AddSeeds cl [NewHost a port]),
                     nodes := AList.update (NewHost a port) (fresh\<lparr>origHost := NewHost a port\<rparr>) (nodes c)\<rparr>"
  using assms
  by (cases "resolveHost address")
     (auto simp: AddNode_def Let_def split: if_splits option.splits)

lemma AddNode_nothing_resolved:
  "resolveHost address = ([], None) \<Longrightarrow>
   AddNode c resolveHost address port fresh = (Returned None, c)"
  by (simp add: AddNode_def)

lemma AddNode_exists:
  assumes "resolveHost address = (as, None)" and "a \<in> set as"
      and "map_of (nodes c) (NewHost a port) \<noteq> None"
  shows "AddNode c resolveHost address port fresh = (Returned (Some ''Node already exists''), c)"
proof -
  from assms(2) have "as \<noteq> []" by auto
  moreover from assms(2,3)
  have "list_ex (\<lambda>address. map_of (nodes c) (NewHost address port) \<noteq> None) as"
    unfolding list_ex_iff by blast
  ultimately show ?thesis
    using assms(1) by (simp add: AddNode_def)
qed

text \<open>
  C6, amended. When the address resolves to at least one host address and
  \<^verbatim>\<open>AddNode\<close> returns \<^verbatim>\<open>nil\<close>, the address of the first resolved host with the
  port is in \<^verbatim>\<open>NodeList()\<close>; every later call for the same port whose resolution
  gives no error and holds that host address returns "Node already exists" and leaves
  the cluster as it is.
\<close>

theorem AddNode_listed_then_already_exists:
  "fst (resolveHost address) = a # as
     \<and> AddNode c resolveHost address port fresh = (Returned None, c') \<longrightarrow>
   a @ '':'' @ Itoa port \<in> set (NodeList c')
   \<and> (\<forall>resolveHost' address' fresh' as'.
         resolveHost' address' = (as', None) \<and> a \<in> set as' \<longrightarrow>
         AddNode c' resolveHost' address' port fresh'
           = (Returned (Some ''Node already exists''), c'))"
proof (intro conjI impI)
  assume h: "fst (resolveHost address) = a # as
      \<and> AddNode c resolveHost address port fresh = (Returned None, c')"
  define host where "host = NewHost a port"
  define node where "node = fresh\<lparr>origHost := host\<rparr>"
  from h AddNode_success [of resolveHost address a as c port fresh c']
  have c': "nodes c' = AList.update host node (nodes c)"
    unfolding host_def node_def by auto
  have "(host, node) \<in> set (nodes c')"
    unfolding c' by (rule update_mem)
  then have "node \<in> set (Nodes c')"
    by (force simp: Nodes_def)
  moreover have "Node_Address node = a @ '':'' @ Itoa port"
    by (simp add: Node_Address_def node_def host_def NewHost_def)
  ultimately show "a @ '':'' @ Itoa port \<in> set (NodeList c')"
    unfolding NodeList_def by (metis image_eqI set_map set_sort)
  have present: "map_of (nodes c') (NewHost a port) \<noteq> None"
    unfolding c' host_def by (simp add: update_conv')
  show "\<forall>resolveHost' address' fresh' as'.
            resolveHost' address' = (as', None) \<and> a \<in> set as' \<longrightarrow>
            AddNode c' resolveHost' address' port fresh'
              = (Returned (Some ''Node already exists''), c')"
    using present by (auto intro: AddNode_exists)
qed

text \<open>
  The claim as stated fails where the resolver gives an empty list and no error: the
  guard of \<^verbatim>\<open>AddNode\<close> returns the \<^verbatim>\<open>nil\<close> error, and no node is listed. And a
  call whose resolver gives an error next to the address of a node that exists returns
  that error, not "Node already exists".
\<close>

theorem AddNode_nothing_resolved_counterexample:
  "AddNode (newCluster exampleConfig (Some exampleClient) None [] ''c-3'' [])
       (\<lambda>_. ([], None)) ''db1.example.com'' 3000 nodeD
     = (Returned None, newCluster exampleConfig (Some exampleClient) None [] ''c-3'' [])
   \<and> NodeList (newCluster exampleConfig (Some exampleClient) None [] ''c-3'' []) = []
   \<and> ''10.0.0.1:3000'' \<in> set (NodeList exampleCluster)
   \<and> AddNode exampleCluster (\<lambda>_. ([''10.0.0.1''], Some ''lookup failed'')) ''db1.example.com''
         3000 nodeD
       = (Returned (Some ''lookup failed''), exampleCluster)"
  by (simp add: AddNode_def NodeList_def example_defs)

text \<open>
  A node at 10.0.0.4 is added to the example cluster and is listed; the second call is
  refused.
\<close>

theorem AddNode_witness:
  "fst ((\<lambda>_. ([''10.0.0.4''], None :: string option)) ''db4.example.com'') = [''10.0.0.4'']
   \<and> fst (AddNode exampleCluster (\<lambda>_. ([''10.0.0.4''], None)) ''db4.example.com'' 3000 nodeD)
       = Returned None
   \<and> NodeList (snd (AddNode exampleCluster (\<lambda>_. ([''10.0.0.4''], None)) ''db4.example.com''
                       3000 nodeD))
       = [''10.0.0.1:3000'', ''10.0.0.2:3000'', ''10.0.0.3:3000'', ''10.0.0.4:3000'']
   \<and> fst (AddNode (snd (AddNode exampleCluster (\<lambda>_. ([''10.0.0.4''], None))
                           ''db4.example.com'' 3000 nodeD))
            (\<lambda>_. ([''10.0.0.4''], None)) ''db4.example.com'' 3000 nodeD)
       = Returned (Some ''Node already exists'')"
proof -
  let ?r = "\<lambda>_ :: string. ([''10.0.0.4''], None :: string option)"
  let ?c' = "snd (AddNode exampleCluster ?r ''db4.example.com'' 3000 nodeD)"
  have first: "fst (AddNode exampleCluster ?r ''db4.example.com'' 3000 nodeD) = Returned None"
    by (simp add: AddNode_def example_defs Let_def)
  then have ok: "AddNode exampleCluster ?r ''db4.example.com'' 3000 nodeD = (Returned None, ?c')"
    by (simp add: prod_eq_iff)
  have listed: "NodeList ?c'
       = [''10.0.0.1:3000'', ''10.0.0.2:3000'', ''10.0.0.3:3000'', ''10.0.0.4:3000'']"
    by (simp add: AddNode_def NodeList_def example_defs Let_def)
  have "fst (?r ''db4.example.com'') = [''10.0.0.4'']
          \<and> AddNode exampleCluster ?r ''db4.example.com'' 3000 nodeD = (Returned None, ?c')"
    using ok by simp
  with AddNode_listed_then_already_exists [of ?r "''db4.example.com''" "''10.0.0.4''" "[]"
      exampleCluster 3000 nodeD ?c']
  have "AddNode ?c' ?r ''db4.example.com'' 3000 nodeD
          = (Returned (Some ''Node already exists''), ?c')"
    by simp
  then have second: "fst (AddNode ?c' ?r ''db4.example.com'' 3000 nodeD)
          = Returned (Some ''Node already exists'')"
    by (simp only: fst_conv)
  show ?thesis
    using first listed second by (intro conjI) simp_all
qed

subsection \<open>Version lists\<close>

lemma appendAt_keys:
  "fst ` set (appendAt m k v) = insert k (fst ` set m)"
  by (simp add: appendAt_def dom_update)

lemma appendAt_distinct:
  "distinct (map fst m) \<Longrightarrow> distinct (map fst (appendAt m k v))"
  by (simp add: appendAt_def distinct_update)

lemma versionList_keys:
  "fst ` set (foldl (\<lambda>m node. appendAt m (f node) (g node)) m ns)
     = fst ` set m \<union> f ` set ns"
  by (induction ns arbitrary: m) (simp_all add: appendAt_keys)

lemma versionList_distinct:
  "distinct (map fst m) \<Longrightarrow>
   distinct (map fst (foldl (\<lambda>m node. appendAt m (f node) (g node)) m ns))"
  by (induction ns arbitrary: m) (simp_all add: appendAt_distinct)

lemma versionList_length:
  "length (foldl (\<lambda>m node. appendAt m (f node) (g node)) [] ns) = card (f ` set ns)"
proof -
  let ?vl = "foldl (\<lambda>m node. appendAt m (f node) (g node)) [] ns"
  have "distinct (map fst ?vl)"
    by (rule versionList_distinct) simp
  then have "card (set (map fst ?vl)) = length (map fst ?vl)"
    by (rule distinct_card)
  moreover have "set (map fst ?vl) = f ` set ns"
    using versionList_keys [of f g "[]" ns] by simp
  ultimately show ?thesis by simp
qed

text \<open>
  C3. \<^verbatim>\<open>NodeCompatibility\<close> answers "homogeneous" exactly when the nodes of the
  cluster report at most one distinct build (no node at all included), and
  "compatible" otherwise.
\<close>

theorem NodeCompatibility_homogeneous_iff:
  "(NodeCompatibility c = ''homogeneous'')
     = (card (set (map Node_Build (Nodes c))) \<le> 1)
   \<and> (NodeCompatibility c = ''compatible'')
     = (\<not> card (set (map Node_Build (Nodes c))) \<le> 1)"
  by (simp add: NodeCompatibility_def Let_def versionList_length)

text \<open>
  The example cluster reports two builds; its two nodes at 4.5.1 alone report one.
\<close>

theorem NodeCompatibility_witness:
  "NodeCompatibility exampleCluster = ''compatible''
   \<and> card (set (map Node_Build (Nodes exampleCluster))) = 2
   \<and> NodeCompatibility (exampleCluster\<lparr>nodes := take 2 (nodes exampleCluster)\<rparr>)
       = ''homogeneous''
   \<and> NodeCompatibility (exampleCluster\<lparr>nodes := []\<rparr>) = ''homogeneous''"
proof -
  have "card (set (map Node_Build (Nodes exampleCluster))) = 2"
    by (simp add: example_defs)
  moreover have
    "card (set (map Node_Build (Nodes (exampleCluster\<lparr>nodes := take 2 (nodes exampleCluster)\<rparr>))))
       = 1"
    by (simp add: example_defs)
  moreover have "card (set (map Node_Build (Nodes (exampleCluster\<lparr>nodes := []\<rparr>)))) = 0"
    by (simp add: Nodes_def)
  ultimately show ?thesis
    using NodeCompatibility_homogeneous_iff [of exampleCluster]
      NodeCompatibility_homogeneous_iff [of "exampleCluster\<lparr>nodes := take 2 (nodes exampleCluster)\<rparr>"]
      NodeCompatibility_homogeneous_iff [of "exampleCluster\<lparr>nodes := []\<rparr>"]
    by simp
qed


subsection \<open>Mail notifications\<close>

lemma deliver_length: "length (deliver send i) \<le> 5 - i"
proof (induction send i rule: deliver.induct)
  case (1 send i)
  show ?case
  proof (cases "i < 5")
    case False
    then show ?thesis by (simp add: deliver.simps)
  next
    case True
    show ?thesis
    proof (cases "send i")
      case None
      with True show ?thesis by (simp add: deliver.simps)
    next
      case (Some err)
      with True "1.IH" [of err] have "length (deliver send (i + 1)) \<le> 5 - (i + 1)" by simp
      with True Some show ?thesis by (simp add: deliver.simps [of send i])
    qed
  qed
qed

lemma deliver_nonempty: "i < 5 \<Longrightarrow> deliver send i \<noteq> []"
  by (cases "send i") (simp_all add: deliver.simps [of send i])

lemma deliver_nth:
  "k < length (deliver send i) \<Longrightarrow> deliver send i ! k = send (i + k)"
proof (induction send i arbitrary: k rule: deliver.induct)
  case (1 send i)
  show ?case
  proof (cases "i < 5")
    case False
    with "1.prems" show ?thesis by (simp add: deliver.simps)
  next
    case True
    show ?thesis
    proof (cases "send i")
      case None
      with True "1.prems" show ?thesis by (simp add: deliver.simps [of send i])
    next
      case (Some err)
      show ?thesis
      proof (cases k)
        case 0
        with True Some show ?thesis by (simp add: deliver.simps [of send i])
      next
        case (Suc j)
        with True Some "1.prems" have "j < length (deliver send (i + 1))"
          by (simp add: deliver.simps [of send i])
        with "1.IH" [OF True Some] have "deliver send (i + 1) ! j = send (i + 1 + j)" by simp
        with True Some Suc show ?thesis by (simp add: deliver.simps [of send i])
      qed
    qed
  qed
qed

lemma deliver_stops_at_success:
  "Suc k < length (deliver send i) \<Longrightarrow> deliver send i ! k \<noteq> None"
proof (induction send i arbitrary: k rule: deliver.induct)
  case (1 send i)
  show ?case
  proof (cases "i < 5")
    case False
    with "1.prems" show ?thesis by (simp add: deliver.simps)
  next
    case True
    show ?thesis
    proof (cases "send i")
      case None
      with True "1.prems" show ?thesis by (simp add: deliver.simps [of send i])
    next
      case (Some err)
      show ?thesis
      proof (cases k)
        case 0
        with True Some show ?thesis by (simp add: deliver.simps [of send i])
      next
        case (Suc j)
        with True Some "1.prems" have "Suc j < length (deliver send (i + 1))"
          by (simp add: deliver.simps [of send i])
        with "1.IH" [OF True Some] have "deliver send (i + 1) ! j \<noteq> None" by simp
        with True Some Suc show ?thesis by (simp add: deliver.simps [of send i])
      qed
    qed
  qed
qed

lemma SendEmailNotifications_unconfigured:
  "Mailer_Host (config c) = [] \<Longrightarrow>
   SendEmailNotifications SendMail ToUpper sanitizeHTML c
     = ([], c\<lparr>alerts := snd (DrainNewAlerts (alerts c))\<rparr>)"
  by (simp add: SendEmailNotifications_def split_def Let_def)

lemma SendEmailNotifications_configured:
  "Mailer_Host (config c) \<noteq> [] \<Longrightarrow>
   SendEmailNotifications SendMail ToUpper sanitizeHTML c
     = (let c' = c\<lparr>alerts := snd (DrainNewAlerts (alerts c))\<rparr>;
            clusterName = (case Alias c' of None \<Rightarrow> Cluster_Id c' | Some a \<Rightarrow> a)
        in (map (\<lambda>(j, alert).
                   \<lparr>mail_context = alertContext ToUpper clusterName alert,
                    calls = deliver
                              (SendMail j ''alerts/generic.html''
                                 (''AMC Alert: '' @ sanitizeHTML (response (alertContext ToUpper clusterName alert) ''Message''))
                                 (alertContext ToUpper clusterName alert))
                              0\<rparr>)
              (enumerate 0 (fst (DrainNewAlerts (alerts c)))),
            c'))"
  by (simp add: SendEmailNotifications_def split_def Let_def)

text \<open>
  C9. Every delivery \<^verbatim>\<open>SendEmailNotifications\<close> starts makes at least one and at
  most five calls of \<^verbatim>\<open>SendMail\<close>, and every call that is followed by another one
  had failed: no call follows a success. Without a mailer host no delivery is started;
  with one, each drained alert gets its delivery.
\<close>

theorem SendMail_at_most_five_calls:
  "(\<forall>d \<in> set (fst (SendEmailNotifications SendMail ToUpper sanitizeHTML c)).
      1 \<le> length (calls d) \<and> length (calls d) \<le> 5
      \<and> (\<forall>k. Suc k < length (calls d) \<longrightarrow> calls d ! k \<noteq> None))
   \<and> (Mailer_Host (config c) = [] \<longrightarrow>
        fst (SendEmailNotifications SendMail ToUpper sanitizeHTML c) = [])
   \<and> (Mailer_Host (config c) \<noteq> [] \<longrightarrow>
        length (fst (SendEmailNotifications SendMail ToUpper sanitizeHTML c))
          = length (fst (DrainNewAlerts (alerts c))))"
proof (intro conjI ballI impI allI)
  fix d
  assume d: "d \<in> set (fst (SendEmailNotifications SendMail ToUpper sanitizeHTML c))"
  then have "Mailer_Host (config c) \<noteq> []"
    by (auto simp: SendEmailNotifications_unconfigured)
  with d obtain send where calls: "calls d = deliver send 0"
    by (auto simp: SendEmailNotifications_configured Let_def)
  show "1 \<le> length (calls d)"
    using deliver_nonempty [of 0 send] calls by (cases "deliver send 0") simp_all
  show "length (calls d) \<le> 5"
    using deliver_length [of send 0] calls by simp
  show "calls d ! k \<noteq> None" if "Suc k < length (calls d)" for k
    using that deliver_stops_at_success [of k send 0] calls by simp
next
  assume "Mailer_Host (config c) = []"
  then show "fst (SendEmailNotifications SendMail ToUpper sanitizeHTML c) = []"
    by (simp add: SendEmailNotifications_unconfigured)
next
  assume "Mailer_Host (config c) \<noteq> []"
  then show "length (fst (SendEmailNotifications SendMail ToUpper sanitizeHTML c))
          = length (fst (DrainNewAlerts (alerts c)))"
    by (simp add: SendEmailNotifications_configured Let_def)
qed

lemma foldr_max_ge: "(c :: int) \<le> foldr max xs c"
  by (induction xs) auto

lemma foldr_max_mem: "x \<in> set xs \<Longrightarrow> (x :: int) \<le> foldr max xs c"
  by (induction xs) auto

lemma drained_below_cursor:
  "a \<in> set (bucket b) \<Longrightarrow> alert_Id a \<le> cursor (snd (DrainNewAlerts b))"
proof (cases "cursor b < alert_Id a")
  case True
  assume "a \<in> set (bucket b)"
  with True have "alert_Id a \<in> set (map alert_Id (filter (\<lambda>a. cursor b < alert_Id a) (bucket b)))"
    by simp
  then show ?thesis
    unfolding DrainNewAlerts_def Let_def by (simp add: foldr_max_mem del: set_map set_filter)
next
  case False
  then have "alert_Id a \<le> cursor b" by simp
  also have "\<dots> \<le> cursor (snd (DrainNewAlerts b))"
    by (simp add: DrainNewAlerts_def Let_def foldr_max_ge)
  finally show ?thesis .
qed

lemma DrainNewAlerts_new_above_cursor:
  "a \<in> set (fst (DrainNewAlerts b)) \<Longrightarrow> cursor b < alert_Id a \<and> a \<in> set (bucket b)"
  by (simp add: DrainNewAlerts_def Let_def)

lemma DrainNewAlerts_twice: "fst (DrainNewAlerts (snd (DrainNewAlerts b))) = []"
proof -
  have "bucket (snd (DrainNewAlerts b)) = bucket b"
    by (simp add: DrainNewAlerts_def Let_def)
  then have "\<forall>a \<in> set (bucket (snd (DrainNewAlerts b))).
      \<not> cursor (snd (DrainNewAlerts b)) < alert_Id a"
    using drained_below_cursor [of _ b] by (simp add: not_less)
  then show ?thesis
    unfolding DrainNewAlerts_def [of "snd (DrainNewAlerts b)"] Let_def
    by (simp add: filter_empty_conv)
qed

lemma cursor_Register: "cursor (foldl Register b new) = cursor b"
  by (induction new arbitrary: b) (simp_all add: Register_def Let_def)

lemma later_drain_disjoint:
  "set (fst (DrainNewAlerts (foldl Register (snd (DrainNewAlerts b)) new)))
     \<inter> set (fst (DrainNewAlerts b)) = {}"
proof -
  have "False" if l: "a \<in> set (fst (DrainNewAlerts (foldl Register (snd (DrainNewAlerts b)) new)))"
    and e: "a \<in> set (fst (DrainNewAlerts b))" for a
  proof -
    from DrainNewAlerts_new_above_cursor [OF l]
    have "cursor (snd (DrainNewAlerts b)) < alert_Id a"
      by (simp add: cursor_Register)
    moreover from DrainNewAlerts_new_above_cursor [OF e]
    have "alert_Id a \<le> cursor (snd (DrainNewAlerts b))"
      by (simp add: drained_below_cursor)
    ultimately show False by simp
  qed
  then show ?thesis by blast
qed

lemma alerts_after_SendEmailNotifications:
  "alerts (snd (SendEmailNotifications SendMail ToUpper sanitizeHTML c))
     = snd (DrainNewAlerts (alerts c))"
  by (cases "Mailer_Host (config c) = []")
     (simp_all add: SendEmailNotifications_unconfigured SendEmailNotifications_configured Let_def)

text \<open>
  C10. \<^verbatim>\<open>SendEmailNotifications\<close> leaves the bucket as \<^verbatim>\<open>DrainNewAlerts\<close> leaves
  it, whatever the mailer host is, and a drain right after it returns nothing. So with
  no mailer host the pending alerts are consumed without a delivery: a later call with a
  host configured starts no delivery, and after any alerts registered in between, the
  next drain returns none of the alerts that were pending.
\<close>

theorem SendEmailNotifications_drains_before_host_check:
  "alerts (snd (SendEmailNotifications SendMail ToUpper sanitizeHTML c))
     = snd (DrainNewAlerts (alerts c))
   \<and> fst (DrainNewAlerts (alerts (snd (SendEmailNotifications SendMail ToUpper sanitizeHTML c)))) = []
   \<and> (Mailer_Host (config c) = [] \<longrightarrow>
        fst (SendEmailNotifications SendMail ToUpper sanitizeHTML c) = []
        \<and> (\<forall>cfg SendMail'.
              fst (SendEmailNotifications SendMail' ToUpper sanitizeHTML
                    ((snd (SendEmailNotifications SendMail ToUpper sanitizeHTML c))\<lparr>config := cfg\<rparr>))
                = [])
        \<and> (\<forall>new.
              set (fst (DrainNewAlerts
                     (foldl Register
                        (alerts (snd (SendEmailNotifications SendMail ToUpper sanitizeHTML c))) new)))
                \<inter> set (fst (DrainNewAlerts (alerts c))) = {}))"
proof (intro conjI impI allI)
  show a: "alerts (snd (SendEmailNotifications SendMail ToUpper sanitizeHTML c))
     = snd (DrainNewAlerts (alerts c))"
    by (rule alerts_after_SendEmailNotifications)
  show "fst (DrainNewAlerts (alerts (snd (SendEmailNotifications SendMail ToUpper sanitizeHTML c)))) = []"
    unfolding a by (rule DrainNewAlerts_twice)
  show "fst (SendEmailNotifications SendMail ToUpper sanitizeHTML c) = []"
    if "Mailer_Host (config c) = []"
    using that by (simp add: SendEmailNotifications_unconfigured)
  show "fst (SendEmailNotifications SendMail' ToUpper sanitizeHTML
               ((snd (SendEmailNotifications SendMail ToUpper sanitizeHTML c))\<lparr>config := cfg\<rparr>))
          = []"
    if "Mailer_Host (config c) = []" for cfg SendMail'
  proof (cases "Mailer_Host cfg = []")
    case True
    then show ?thesis by (simp add: SendEmailNotifications_unconfigured)
  next
    case False
    then show ?thesis
      by (simp add: SendEmailNotifications_configured Let_def a DrainNewAlerts_twice)
  qed
  show "set (fst (DrainNewAlerts
                (foldl Register
                   (alerts (snd (SendEmailNotifications SendMail ToUpper sanitizeHTML c))) new)))
          \<inter> set (fst (DrainNewAlerts (alerts c))) = {}"
    if "Mailer_Host (config c) = []" for new
    unfolding a by (rule later_drain_disjoint)
qed

lemmas alert_defs = alertedCluster_def unconfiguredCluster_def alertDown_def alertUp_def
  Register_def DrainNewAlerts_def exampleMailer_def

lemma alerted_pending:
  "fst (DrainNewAlerts (alerts alertedCluster)) = [alertDown\<lparr>alert_Id := 1\<rparr>, alertUp\<lparr>alert_Id := 2\<rparr>]"
  by (simp add: alert_defs example_defs Let_def)

text \<open>
  The first alert of the example is delivered at the third call, the second never: five
  calls. The same cluster without a mailer host starts no delivery.
\<close>

theorem SendMail_at_most_five_calls_witness:
  "map calls (fst (SendEmailNotifications exampleMailer upperASCII id alertedCluster))
     = [[Some ''connection refused'', Some ''connection refused'', None],
        [Some ''connection refused'', Some ''connection refused'', Some ''connection refused'',
         Some ''connection refused'', Some ''connection refused'']]
   \<and> map (\<lambda>d. response (mail_context d) ''Status'')
         (fst (SendEmailNotifications exampleMailer upperASCII id alertedCluster))
     = [''<font color='' @ [CHR 0x27] @ ''red'' @ [CHR 0x27] @ ''><strong>RED</strong></font>'',
        ''<font color='' @ [CHR 0x27] @ ''green'' @ [CHR 0x27] @ ''><strong>GREEN</strong></font>'']
   \<and> fst (SendEmailNotifications exampleMailer upperASCII id unconfiguredCluster) = []"
proof -
  have host: "Mailer_Host (config alertedCluster) \<noteq> []"
    by (simp add: alertedCluster_def example_defs)
  have "map calls (fst (SendEmailNotifications exampleMailer upperASCII id alertedCluster))
     = [[Some ''connection refused'', Some ''connection refused'', None],
        [Some ''connection refused'', Some ''connection refused'', Some ''connection refused'',
         Some ''connection refused'', Some ''connection refused'']]"
    by (simp add: SendEmailNotifications_configured [OF host] alerted_pending Let_def
        exampleMailer_def deliver.simps)
  moreover have "map (\<lambda>d. response (mail_context d) ''Status'')
         (fst (SendEmailNotifications exampleMailer upperASCII id alertedCluster))
     = [''<font color='' @ [CHR 0x27] @ ''red'' @ [CHR 0x27] @ ''><strong>RED</strong></font>'',
        ''<font color='' @ [CHR 0x27] @ ''green'' @ [CHR 0x27] @ ''><strong>GREEN</strong></font>'']"
    by (simp add: SendEmailNotifications_configured [OF host] alerted_pending Let_def
        alertContext_def response_def upperASCII_def alertDown_def alertUp_def)
  moreover have "Mailer_Host (config unconfiguredCluster) = []"
    by (simp add: unconfiguredCluster_def)
  ultimately show ?thesis
    using SendMail_at_most_five_calls [of exampleMailer upperASCII id unconfiguredCluster]
      SendMail_at_most_five_calls [of exampleMailer upperASCII id alertedCluster]
    by simp
qed

text \<open>
  The cluster without a mailer host has two alerts pending; its call starts no delivery,
  and neither does the next call, made with a host configured.
\<close>

theorem SendEmailNotifications_drains_witness:
  "Mailer_Host (config unconfiguredCluster) = []
   \<and> length (fst (DrainNewAlerts (alerts unconfiguredCluster))) = 2
   \<and> fst (SendEmailNotifications exampleMailer upperASCII id unconfiguredCluster) = []
   \<and> fst (SendEmailNotifications exampleMailer upperASCII id
            ((snd (SendEmailNotifications exampleMailer upperASCII id unconfiguredCluster))
               \<lparr>config := exampleConfig\<rparr>)) = []"
proof -
  have "Mailer_Host (config unconfiguredCluster) = []"
    by (simp add: unconfiguredCluster_def)
  moreover have "length (fst (DrainNewAlerts (alerts unconfiguredCluster))) = 2"
    using alerted_pending by (simp add: unconfiguredCluster_def)
  ultimately show ?thesis
    using SendEmailNotifications_drains_before_host_check
      [of exampleMailer upperASCII id unconfiguredCluster]
    by simp
qed



subsection \<open>Info commands on every node\<close>

lemma gather_fst:
  "fst (gather cmd (res, errsStr) r) = res(nc_Node r \<mapsto> answer cmd r)"
  by (auto simp: gather_def answer_def Let_def response_def split: option.splits)

lemma gather_snd:
  "snd (gather cmd (res, errsStr) r)
     = errsStr @ (case nc_Err r of None \<Rightarrow> [] | Some e \<Rightarrow> [e])"
  by (simp add: gather_def Let_def split: option.splits)

lemma gather_errors:
  "snd (foldl (gather cmd) (res, errsStr) rs) = errsStr @ List.map_filter nc_Err rs"
proof (induction rs arbitrary: res errsStr)
  case Nil
  then show ?case by (simp add: List.map_filter_simps)
next
  case (Cons r rs)
  obtain res' errs' where g: "gather cmd (res, errsStr) r = (res', errs')"
    by (cases "gather cmd (res, errsStr) r")
  with gather_snd [of cmd res errsStr r]
  have "errs' = errsStr @ (case nc_Err r of None \<Rightarrow> [] | Some e \<Rightarrow> [e])" by simp
  with Cons [of res' errs'] g show ?case
    by (simp add: List.map_filter_simps split: option.splits)
qed

lemma gather_entries:
  assumes "\<forall>r \<in> set rs. answer cmd r = V (nc_Node r)"
  shows "fst (foldl (gather cmd) (res, errsStr) rs) p
           = (if p \<in> nc_Node ` set rs then Some (V p) else res p)"
  using assms
proof (induction rs arbitrary: res errsStr)
  case Nil
  then show ?case by simp
next
  case (Cons r rs)
  obtain res' errs' where g: "gather cmd (res, errsStr) r = (res', errs')"
    by (cases "gather cmd (res, errsStr) r")
  with gather_fst [of cmd res errsStr r] Cons.prems
  have res': "res' = res(nc_Node r \<mapsto> V (nc_Node r))" by simp
  from Cons.prems have "\<forall>r \<in> set rs. answer cmd r = V (nc_Node r)" by simp
  from Cons.IH [OF this, of res' errs']
  have IH: "fst (foldl (gather cmd) (res', errs') rs) p
              = (if p \<in> nc_Node ` set rs then Some (V p) else res' p)" .
  have "fst (foldl (gather cmd) (res, errsStr) (r # rs)) p
          = fst (foldl (gather cmd) (res', errs') rs) p"
    by (simp add: g)
  also note IH
  also have "(if p \<in> nc_Node ` set rs then Some (V p) else res' p)
          = (if p \<in> nc_Node ` set (r # rs) then Some (V p) else res p)"
    by (simp add: res')
  finally show ?case .
qed

lemma mset_map_filter:
  "mset xs = mset ys \<Longrightarrow> mset (List.map_filter f xs) = mset (List.map_filter f ys)"
  by (metis (no_types) List.map_filter_def mset_filter mset_map)

lemma map_filter_map: "List.map_filter f (map g xs) = List.map_filter (f \<circ> g) xs"
  by (induction xs) (simp_all add: List.map_filter_simps split: option.splits)

lemma map_filter_empty: "(List.map_filter f xs = []) = (\<forall>x \<in> set xs. f x = None)"
  by (induction xs) (auto simp: List.map_filter_simps split: option.splits)

text \<open>
  C7, amended. Whatever the order in which the answers arrive, the map returned by
  \<^verbatim>\<open>RequestInfoAll\<close> has exactly one entry per node of the cluster: the error message
  of the node when its request failed, else its response to the command (the empty
  string when it gave none). The error is \<^verbatim>\<open>nil\<close> exactly when no node failed, and
  otherwise the messages of the failed nodes, each once, in the order in which their
  answers arrived, joined by a comma and a space.
\<close>

theorem RequestInfoAll_entries_and_error:
  assumes "\<And>sent. mset (arrival sent) = mset sent"
  shows "dom (fst (RequestInfoAll RequestInfo arrival c cmd)) = node_ptr ` set (Nodes c)
   \<and> (\<forall>node \<in> set (Nodes c).
        fst (RequestInfoAll RequestInfo arrival c cmd) (node_ptr node)
          = Some (case snd (RequestInfo (node_ptr node) cmd) of
                    Some e \<Rightarrow> e
                  | None \<Rightarrow> response (fst (RequestInfo (node_ptr node) cmd)) cmd))
   \<and> (snd (RequestInfoAll RequestInfo arrival c cmd) = None)
        = (\<forall>node \<in> set (Nodes c). snd (RequestInfo (node_ptr node) cmd) = None)
   \<and> snd (RequestInfoAll RequestInfo arrival c cmd)
       = (case List.map_filter nc_Err (arrival (nodeCommands RequestInfo c cmd)) of
            [] \<Rightarrow> None
          | e # es \<Rightarrow> Some (Join (e # es) '', ''))
   \<and> mset (List.map_filter nc_Err (arrival (nodeCommands RequestInfo c cmd)))
       = mset (List.map_filter (\<lambda>node. snd (RequestInfo (node_ptr node) cmd)) (Nodes c))"
proof -
  define mk where "mk = (\<lambda>node :: Node. let (result, err) = RequestInfo (node_ptr node) cmd
                        in \<lparr>nc_Node = node_ptr node, nc_Res = result, nc_Err = err\<rparr>)"
  define sent where "sent = map mk (Nodes c)"
  define V where "V = (\<lambda>p. case snd (RequestInfo p cmd) of
                    Some e \<Rightarrow> e
                  | None \<Rightarrow> response (fst (RequestInfo p cmd)) cmd)"
  define out where "out = foldl (gather cmd) (Map.empty, []) (arrival sent)"
  have R: "RequestInfoAll RequestInfo arrival c cmd
             = (fst out, if length (snd out) > 0 then Some (Join (snd out) '', '') else None)"
    by (simp add: RequestInfoAll_def Let_def split_def out_def sent_def mk_def)
  have set_arr: "set (arrival sent) = set sent"
    using assms [of sent] by (rule mset_eq_setD)
  have mk: "nc_Node (mk node) = node_ptr node" "nc_Err (mk node) = snd (RequestInfo (node_ptr node) cmd)"
      "answer cmd (mk node) = V (node_ptr node)" for node
    by (simp_all add: mk_def split_def answer_def V_def Let_def split: option.splits)
  have "\<forall>r \<in> set (arrival sent). answer cmd r = V (nc_Node r)"
    unfolding set_arr by (auto simp: sent_def mk)
  from gather_entries [OF this, of Map.empty "[]"]
  have entries: "fst out p = (if p \<in> nc_Node ` set sent then Some (V p) else None)" for p
    by (simp add: out_def set_arr)
  have ptrs: "nc_Node ` set sent = node_ptr ` set (Nodes c)"
    by (auto simp: sent_def mk image_iff)
  have errs: "snd out = List.map_filter nc_Err (arrival sent)"
    using gather_errors [of cmd Map.empty "[]" "arrival sent"] by (simp add: out_def)
  have sent: "nodeCommands RequestInfo c cmd = sent"
    by (simp add: nodeCommands_def sent_def mk_def)
  have "mset (snd out) = mset (List.map_filter nc_Err sent)"
    unfolding errs using assms [of sent] by (rule mset_map_filter)
  also have "List.map_filter nc_Err sent
      = List.map_filter (\<lambda>node. snd (RequestInfo (node_ptr node) cmd)) (Nodes c)"
    by (simp add: sent_def map_filter_map comp_def mk)
  finally have ms: "mset (snd out)
      = mset (List.map_filter (\<lambda>node. snd (RequestInfo (node_ptr node) cmd)) (Nodes c))" .
  have d: "dom (fst out) = node_ptr ` set (Nodes c)"
    unfolding ptrs [symmetric] by (auto simp: entries dom_def)
  have e: "\<forall>node \<in> set (Nodes c). fst out (node_ptr node) = Some (V (node_ptr node))"
    by (simp add: entries ptrs)
  have n: "(snd out = []) = (\<forall>node \<in> set (Nodes c). snd (RequestInfo (node_ptr node) cmd) = None)"
  proof -
    have "(snd out = []) = (mset (snd out) = {#})" by simp
    also have "\<dots> = (List.map_filter (\<lambda>node. snd (RequestInfo (node_ptr node) cmd)) (Nodes c) = [])"
      unfolding ms by simp
    finally show ?thesis by (simp add: map_filter_empty)
  qed
  have j: "snd (RequestInfoAll RequestInfo arrival c cmd)
      = (case snd out of [] \<Rightarrow> None | e # es \<Rightarrow> Some (Join (e # es) '', ''))"
    unfolding R by (cases "snd out") simp_all
  have z: "(snd (RequestInfoAll RequestInfo arrival c cmd) = None) = (snd out = [])"
    unfolding j by (cases "snd out") simp_all
  show ?thesis
  proof (intro conjI)
    show "dom (fst (RequestInfoAll RequestInfo arrival c cmd)) = node_ptr ` set (Nodes c)"
      using d by (simp add: R)
    show "\<forall>node \<in> set (Nodes c).
        fst (RequestInfoAll RequestInfo arrival c cmd) (node_ptr node)
          = Some (case snd (RequestInfo (node_ptr node) cmd) of
                    Some e \<Rightarrow> e
                  | None \<Rightarrow> response (fst (RequestInfo (node_ptr node) cmd)) cmd)"
      using e by (simp add: R V_def)
    show "(snd (RequestInfoAll RequestInfo arrival c cmd) = None)
        = (\<forall>node \<in> set (Nodes c). snd (RequestInfo (node_ptr node) cmd) = None)"
      unfolding z by (rule n)
    show "snd (RequestInfoAll RequestInfo arrival c cmd)
       = (case List.map_filter nc_Err (arrival (nodeCommands RequestInfo c cmd)) of
            [] \<Rightarrow> None
          | e # es \<Rightarrow> Some (Join (e # es) '', ''))"
      unfolding sent errs [symmetric] by (rule j)
    show "mset (List.map_filter nc_Err (arrival (nodeCommands RequestInfo c cmd)))
       = mset (List.map_filter (\<lambda>node. snd (RequestInfo (node_ptr node) cmd)) (Nodes c))"
      unfolding sent errs [symmetric] by (rule ms)
  qed
qed

text \<open>
  The claim as stated fails at a node whose request fails: its entry is the error
  message, which is neither its response nor the empty string.
\<close>

theorem RequestInfoAll_error_text_counterexample:
  "nodeB \<in> set (Nodes exampleCluster)
   \<and> fst (RequestInfoAll exampleInfo rev exampleCluster ''build'') (node_ptr nodeB)
       = Some ''i/o timeout''
   \<and> \<not> (fst (RequestInfoAll exampleInfo rev exampleCluster ''build'') (node_ptr nodeB)
           = Some (response (fst (exampleInfo (node_ptr nodeB) ''build'')) ''build'')
        \<or> fst (RequestInfoAll exampleInfo rev exampleCluster ''build'') (node_ptr nodeB)
           = Some [])"
  by (simp add: RequestInfoAll_def gather_def exampleInfo_def response_def example_defs Let_def)

text \<open>
  On the example cluster, with the answers arriving in reverse order: one entry per
  node, and the two error messages joined in the order of arrival; arriving in the
  order of the nodes, they are joined the other way round.
\<close>

theorem RequestInfoAll_witness:
  "fst (RequestInfoAll exampleInfo rev exampleCluster ''build'') (node_ptr nodeA) = Some ''4.5.1''
   \<and> fst (RequestInfoAll exampleInfo rev exampleCluster ''build'') (node_ptr nodeB)
       = Some ''i/o timeout''
   \<and> fst (RequestInfoAll exampleInfo rev exampleCluster ''build'') (node_ptr nodeC)
       = Some ''connection reset''
   \<and> dom (fst (RequestInfoAll exampleInfo rev exampleCluster ''build'')) = {1, 2, 3}
   \<and> snd (RequestInfoAll exampleInfo rev exampleCluster ''build'')
       = Some ''connection reset, i/o timeout''
   \<and> snd (RequestInfoAll exampleInfo (\<lambda>sent. sent) exampleCluster ''build'')
       = Some ''i/o timeout, connection reset''"
proof -
  have "snd (RequestInfoAll exampleInfo rev exampleCluster ''build'')
       = Some ''connection reset, i/o timeout''"
    by (simp add: RequestInfoAll_def gather_def exampleInfo_def response_def example_defs Let_def)
  moreover have "snd (RequestInfoAll exampleInfo (\<lambda>sent. sent) exampleCluster ''build'')
       = Some ''i/o timeout, connection reset''"
    by (simp add: RequestInfoAll_def gather_def exampleInfo_def response_def example_defs Let_def)
  moreover have "set (Nodes exampleCluster) = {nodeA, nodeB, nodeC}"
    by (auto simp: exampleCluster_def newCluster_def Nodes_def)
  moreover have "node_ptr nodeA = 1" "node_ptr nodeB = 2" "node_ptr nodeC = 3"
    by (simp_all add: nodeA_def nodeB_def nodeC_def)
  ultimately show ?thesis
    using RequestInfoAll_entries_and_error [of rev exampleInfo exampleCluster "''build''", OF mset_rev]
      RequestInfoAll_entries_and_error [of "\<lambda>sent. sent" exampleInfo exampleCluster "''build''", OF refl]
    by (simp add: exampleInfo_def response_def)
qed


subsection \<open>The supported version\<close>

lemmas dotted_defs = dottedCompare_def components_def plain_def number_def isDigit_def

lemma dotted_examples:
  "dottedCompare ''4.5.1'' ''4.6.0'' = - 1" "dottedCompare ''4.6.0'' ''4.6.0'' = 0"
  "dottedCompare ''4.4.0'' ''4.6.0'' = - 1" "dottedCompare ''4.10.0'' ''4.6.0'' = 1"
  "dottedCompare ''4.6'' ''4.6.0'' = 0" "dottedCompare ''4.5.1'' [] = 1"
  by (simp_all add: dotted_defs)

lemma version_Compare_ge: "version_Compare cmp a b ''>='' = (\<not> version_Compare cmp a b ''<'')"
  by (simp add: version_Compare_def not_less)

lemma appendAt_lookup:
  "map_of (appendAt m k v) k'
     = (if k' = k then Some ((case map_of m k of None \<Rightarrow> [] | Some l \<Rightarrow> l) @ [v])
        else map_of m k')"
  by (simp add: appendAt_def update_conv')

lemma versionList_lookup:
  "map_of (foldl (\<lambda>m node. appendAt m (f node) (g node)) m ns) k
     = (if k \<in> f ` set ns
        then Some ((case map_of m k of None \<Rightarrow> [] | Some l \<Rightarrow> l)
                     @ map g (filter (\<lambda>node. f node = k) ns))
        else map_of m k)"
proof (induction ns arbitrary: m)
  case Nil
  then show ?case by simp
next
  case (Cons n ns)
  show ?case
  proof (cases "f n = k")
    case True
    have "filter (\<lambda>node. f node = k) ns = []" if "k \<notin> f ` set ns"
      using that by (auto simp: filter_empty_conv)
    with True Cons [of "appendAt m (f n) (g n)"] show ?thesis
      by (simp add: appendAt_lookup)
  next
    case False
    with Cons [of "appendAt m (f n) (g n)"] show ?thesis
      by (auto simp: appendAt_lookup)
  qed
qed

lemma BuildDetails_version_list:
  "version_list (fst (BuildDetails cmp c now))
     = foldl (\<lambda>m node. appendAt m (Node_Build node) (Node_Address node)) [] (Nodes c)"
proof -
  have "fst (foldl (\<lambda>(versionList, latestBuild) node.
                     let build = Node_Build node
                     in (appendAt versionList build (Node_Address node),
                         if version_Compare cmp build latestBuild ''>''
                         then build else latestBuild)) (vl, lb) ns)
        = foldl (\<lambda>m node. appendAt m (Node_Build node) (Node_Address node)) vl ns"
    for vl lb ns
    by (induction ns arbitrary: vl lb) (simp_all add: Let_def)
  then show ?thesis
    by (simp add: BuildDetails_def split_def Let_def)
qed

lemma BuildDetails_cluster: "snd (BuildDetails cmp c now) = updateLastestPing c now"
  by (simp add: BuildDetails_def split_def Let_def)

lemma version_list_entries:
  "((ver, nodeList) \<in> set (version_list (fst (BuildDetails cmp c now))))
     = (ver \<in> Node_Build ` set (Nodes c)
        \<and> nodeList = map Node_Address (filter (\<lambda>node. Node_Build node = ver) (Nodes c)))"
proof -
  let ?vl = "foldl (\<lambda>m node. appendAt m (Node_Build node) (Node_Address node)) [] (Nodes c)"
  have "distinct (map fst ?vl)"
    by (rule versionList_distinct) simp
  then have "((ver, nodeList) \<in> set ?vl) = (map_of ?vl ver = Some nodeList)"
    by simp
  also have "\<dots> = (ver \<in> Node_Build ` set (Nodes c)
        \<and> nodeList = map Node_Address (filter (\<lambda>node. Node_Build node = ver) (Nodes c)))"
    by (auto simp: versionList_lookup)
  finally show ?thesis
    by (simp add: BuildDetails_version_list)
qed

text \<open>
  C8, amended. \<open>cmp\<close> is the three-way comparison of the version library, the
  dotted-semver ordering. Whatever the order of \<^verbatim>\<open>range\<close>, \<^verbatim>\<open>versionSupported\<close> returns
  \<^verbatim>\<open>nil\<close> exactly when every node's build compares greater than or equal to the
  minimum under \<open>cmp\<close>. Otherwise the error names one build below the minimum: the
  first such build in the order in which the loop ranges over the version list, with
  the addresses of all the nodes running that build. The builds the loop ranges over
  are the distinct builds of the nodes. The call refreshes the last ping.
\<close>

theorem versionSupported_names_first_old_build:
  assumes "\<And>verList. mset (rangeOrder verList) = mset verList"
  shows "(fst (versionSupported cmp rangeOrder c now oldest) = None)
      = (\<forall>node \<in> set (Nodes c). version_Compare cmp (Node_Build node) oldest ''>='')
   \<and> (fst (versionSupported cmp rangeOrder c now oldest) \<noteq> None \<longrightarrow>
        (\<exists>i < length (rangedBuilds cmp rangeOrder c now).
           version_Compare cmp (rangedBuilds cmp rangeOrder c now ! i) oldest ''<''
           \<and> (\<forall>j < i. \<not> version_Compare cmp (rangedBuilds cmp rangeOrder c now ! j) oldest ''<'')
           \<and> fst (versionSupported cmp rangeOrder c now oldest)
               = Some (unsupportedMessage oldest
                         (map Node_Address
                            (filter (\<lambda>node. Node_Build node = rangedBuilds cmp rangeOrder c now ! i)
                               (Nodes c)))
                         (rangedBuilds cmp rangeOrder c now ! i))))
   \<and> mset (rangedBuilds cmp rangeOrder c now) = mset (remdups (map Node_Build (Nodes c)))
   \<and> snd (versionSupported cmp rangeOrder c now oldest) = updateLastestPing c now"
proof -
  define verList where "verList = version_list (fst (BuildDetails cmp c now))"
  define ranged where "ranged = rangeOrder verList"
  define found where
    "found = find (\<lambda>(ver, nodeList). version_Compare cmp ver oldest ''<'') ranged"
  have builds: "rangedBuilds cmp rangeOrder c now = map fst ranged"
    by (simp add: rangedBuilds_def ranged_def verList_def)
  have V: "versionSupported cmp rangeOrder c now oldest
      = (case found of
           Some (ver, nodeList) \<Rightarrow> Some (unsupportedMessage oldest nodeList ver)
         | None \<Rightarrow> None,
         updateLastestPing c now)"
    by (simp add: versionSupported_def split_def Let_def found_def ranged_def verList_def
        BuildDetails_cluster)
  have set_range: "set ranged = set verList"
    unfolding ranged_def using assms [of verList] by (rule mset_eq_setD)
  have entries: "((ver, nodeList) \<in> set verList)
     = (ver \<in> Node_Build ` set (Nodes c)
        \<and> nodeList = map Node_Address (filter (\<lambda>node. Node_Build node = ver) (Nodes c)))"
    for ver nodeList
    unfolding verList_def by (rule version_list_entries)
  have none: "(found = None)
      = (\<forall>node \<in> set (Nodes c). version_Compare cmp (Node_Build node) oldest ''>='')"
  proof -
    have "(found = None)
        = (\<forall>ver nodeList. (ver, nodeList) \<in> set verList \<longrightarrow>
             \<not> version_Compare cmp ver oldest ''<'')"
      unfolding found_def find_None_iff set_range by auto
    also have "\<dots> = (\<forall>node \<in> set (Nodes c). \<not> version_Compare cmp (Node_Build node) oldest ''<'')"
      unfolding entries by auto
    finally show ?thesis by (simp add: version_Compare_ge)
  qed
  have some: "\<exists>i < length (map fst ranged).
           version_Compare cmp (map fst ranged ! i) oldest ''<''
           \<and> (\<forall>j < i. \<not> version_Compare cmp (map fst ranged ! j) oldest ''<'')
           \<and> fst (versionSupported cmp rangeOrder c now oldest)
               = Some (unsupportedMessage oldest
                         (map Node_Address
                            (filter (\<lambda>node. Node_Build node = map fst ranged ! i) (Nodes c)))
                         (map fst ranged ! i))"
    if "found \<noteq> None"
  proof -
    from that obtain ver nodeList where f: "found = Some (ver, nodeList)"
      by auto
    from f have "\<exists>i < length ranged. version_Compare cmp (fst (ranged ! i)) oldest ''<''
        \<and> (ver, nodeList) = ranged ! i
        \<and> (\<forall>j < i. \<not> version_Compare cmp (fst (ranged ! j)) oldest ''<'')"
      unfolding found_def by (simp add: find_Some_iff split_def)
    then obtain i where len: "i < length ranged"
      and lt': "version_Compare cmp (fst (ranged ! i)) oldest ''<''"
      and at: "(ver, nodeList) = ranged ! i"
      and first: "\<forall>j < i. \<not> version_Compare cmp (fst (ranged ! j)) oldest ''<''"
      by blast
    from at have "ranged ! i = (ver, nodeList)"
      by simp
    with len have i: "i < length ranged" "ranged ! i = (ver, nodeList)"
      by simp_all
    from lt' i(2) have lt: "version_Compare cmp ver oldest ''<''"
      by simp
    from i have "(ver, nodeList) \<in> set ranged"
      by (metis nth_mem)
    then have "(ver, nodeList) \<in> set verList"
      by (simp add: set_range)
    then have nodeList:
      "nodeList = map Node_Address (filter (\<lambda>node. Node_Build node = ver) (Nodes c))"
      by (simp add: entries)
    have ver: "map fst ranged ! i = ver"
      using i by simp
    have "\<forall>j < i. \<not> version_Compare cmp (map fst ranged ! j) oldest ''<''"
      using first i(1) by simp
    moreover have "fst (versionSupported cmp rangeOrder c now oldest)
        = Some (unsupportedMessage oldest nodeList ver)"
      by (simp add: V f)
    ultimately show ?thesis
      using i(1) lt nodeList ver by (intro exI [of _ i]) simp
  qed
  have perm: "mset (map fst ranged) = mset (remdups (map Node_Build (Nodes c)))"
  proof -
    have "distinct (map fst verList)"
      unfolding verList_def BuildDetails_version_list by (rule versionList_distinct) simp
    moreover have "mset (map fst ranged) = mset (map fst verList)"
      unfolding ranged_def using assms [of verList] by simp
    ultimately have d: "distinct (map fst ranged)"
      by (metis mset_eq_imp_distinct_iff)
    have "fst ` set verList = Node_Build ` set (Nodes c)"
    proof (intro set_eqI iffI)
      fix ver
      assume "ver \<in> fst ` set verList"
      then obtain nodeList where "(ver, nodeList) \<in> set verList"
        by auto
      then show "ver \<in> Node_Build ` set (Nodes c)"
        by (simp add: entries)
    next
      fix ver
      assume "ver \<in> Node_Build ` set (Nodes c)"
      then have "(ver, map Node_Address (filter (\<lambda>node. Node_Build node = ver) (Nodes c)))
          \<in> set verList"
        by (simp add: entries)
      then have "fst (ver, map Node_Address (filter (\<lambda>node. Node_Build node = ver) (Nodes c)))
          \<in> fst ` set verList"
        by (rule imageI)
      then show "ver \<in> fst ` set verList"
        by simp
    qed
    then have e: "set (map fst ranged) = set (remdups (map Node_Build (Nodes c)))"
      by (simp add: set_range)
    have "distinct (remdups (map Node_Build (Nodes c)))"
      by (rule distinct_remdups)
    with d have "(set (map fst ranged) = set (remdups (map Node_Build (Nodes c))))
        = (mset (map fst ranged) = mset (remdups (map Node_Build (Nodes c))))"
      by (rule set_eq_iff_mset_eq_distinct)
    with e show ?thesis
      by (rule iffD1 [rotated])
  qed
  have fst_V: "(fst (versionSupported cmp rangeOrder c now oldest) = None) = (found = None)"
    by (auto simp: V split: option.splits)
  show ?thesis
  proof (intro conjI impI)
    show "(fst (versionSupported cmp rangeOrder c now oldest) = None)
      = (\<forall>node \<in> set (Nodes c). version_Compare cmp (Node_Build node) oldest ''>='')"
      unfolding fst_V by (rule none)
    show "snd (versionSupported cmp rangeOrder c now oldest) = updateLastestPing c now"
      by (simp add: V)
    show "mset (rangedBuilds cmp rangeOrder c now) = mset (remdups (map Node_Build (Nodes c)))"
      unfolding builds by (rule perm)
  next
    assume "fst (versionSupported cmp rangeOrder c now oldest) \<noteq> None"
    then have "found \<noteq> None" by (simp add: fst_V)
    then show "\<exists>i < length (rangedBuilds cmp rangeOrder c now).
           version_Compare cmp (rangedBuilds cmp rangeOrder c now ! i) oldest ''<''
           \<and> (\<forall>j < i. \<not> version_Compare cmp (rangedBuilds cmp rangeOrder c now ! j) oldest ''<'')
           \<and> fst (versionSupported cmp rangeOrder c now oldest)
               = Some (unsupportedMessage oldest
                         (map Node_Address
                            (filter (\<lambda>node. Node_Build node = rangedBuilds cmp rangeOrder c now ! i)
                               (Nodes c)))
                         (rangedBuilds cmp rangeOrder c now ! i))"
      unfolding builds by (rule some)
  qed
qed

text \<open>
  The claim as stated fails where two builds are below the minimum: with nodes at 4.4.0
  and at 4.5.1 and the minimum 4.6.0, the error names the node at 4.4.0 only.
\<close>

theorem versionSupported_one_build_counterexample:
  "fst (versionSupported dottedCompare id olderCluster 0 ''4.6.0'')
     = Some (unsupportedMessage ''4.6.0'' [''10.0.0.1:3000''] ''4.4.0'')
   \<and> nodeB \<in> set (Nodes olderCluster)
   \<and> version_Compare dottedCompare (Node_Build nodeB) ''4.6.0'' ''<''
   \<and> \<not> Contains (unsupportedMessage ''4.6.0'' [''10.0.0.1:3000''] ''4.4.0'') (Node_Build nodeB)
   \<and> \<not> Contains (unsupportedMessage ''4.6.0'' [''10.0.0.1:3000''] ''4.4.0'') (Node_Address nodeB)"
proof -
  have "fst (versionSupported dottedCompare id olderCluster 0 ''4.6.0'')
     = Some (unsupportedMessage ''4.6.0'' [''10.0.0.1:3000''] ''4.4.0'')"
    by (simp add: versionSupported_def BuildDetails_def appendAt_def version_Compare_def
        dotted_examples olderCluster_def example_defs Let_def dotted_defs)
  moreover have "nodeB \<in> set (Nodes olderCluster)"
    by (simp add: olderCluster_def Nodes_def)
  moreover have "version_Compare dottedCompare (Node_Build nodeB) ''4.6.0'' ''<''"
    by (simp add: version_Compare_def dotted_examples nodeB_def Node_Build_def)
  moreover have "\<not> Contains (unsupportedMessage ''4.6.0'' [''10.0.0.1:3000''] ''4.4.0'') (Node_Build nodeB)"
    by (simp add: unsupportedMessage_def nodeB_def Node_Build_def)
  moreover have "\<not> Contains (unsupportedMessage ''4.6.0'' [''10.0.0.1:3000''] ''4.4.0'') (Node_Address nodeB)"
    by (simp add: unsupportedMessage_def example_defs)
  ultimately show ?thesis by simp
qed

text \<open>
  The second scenario of the spec: builds 4.5.1, 4.5.1 and 4.6.0. Where the loop meets
  4.6.0 first and 4.5.1 second, the error for the minimum 4.6.0 names the two nodes at
  4.5.1; for the minimum 4.5.0 there is no error.
\<close>

theorem versionSupported_witness:
  "rangedBuilds dottedCompare rev exampleCluster 0 = [''4.6.0'', ''4.5.1'']
   \<and> \<not> version_Compare dottedCompare ''4.6.0'' ''4.6.0'' ''<''
   \<and> version_Compare dottedCompare ''4.5.1'' ''4.6.0'' ''<''
   \<and> fst (versionSupported dottedCompare rev exampleCluster 0 ''4.6.0'')
       = Some (unsupportedMessage ''4.6.0'' [''10.0.0.1:3000'', ''10.0.0.2:3000''] ''4.5.1'')
   \<and> unsupportedMessage ''4.6.0'' [''10.0.0.1:3000'', ''10.0.0.2:3000''] ''4.5.1''
       = ''Database cluster is not supported. Latest supported version is: `v4.6.0`. Nodes [10.0.0.1:3000, 10.0.0.2:3000] are at `v4.5.1`''
   \<and> fst (versionSupported dottedCompare rev exampleCluster 0 ''4.5.0'') = None"
proof -
  have "rangedBuilds dottedCompare rev exampleCluster 0 = [''4.6.0'', ''4.5.1'']"
    by (simp add: rangedBuilds_def BuildDetails_def appendAt_def version_Compare_def
        example_defs Let_def)
  moreover have "\<not> version_Compare dottedCompare ''4.6.0'' ''4.6.0'' ''<''"
    "version_Compare dottedCompare ''4.5.1'' ''4.6.0'' ''<''"
    by (simp_all add: version_Compare_def dotted_examples)
  moreover have "fst (versionSupported dottedCompare rev exampleCluster 0 ''4.6.0'')
     = Some (unsupportedMessage ''4.6.0'' [''10.0.0.1:3000'', ''10.0.0.2:3000''] ''4.5.1'')"
    by (simp add: versionSupported_def BuildDetails_def appendAt_def version_Compare_def
        example_defs Let_def dotted_examples)
  moreover have "unsupportedMessage ''4.6.0'' [''10.0.0.1:3000'', ''10.0.0.2:3000''] ''4.5.1''
       = ''Database cluster is not supported. Latest supported version is: `v4.6.0`. Nodes [10.0.0.1:3000, 10.0.0.2:3000] are at `v4.5.1`''"
    by (simp add: unsupportedMessage_def)
  moreover have "\<forall>node \<in> set (Nodes exampleCluster).
      version_Compare dottedCompare (Node_Build node) ''4.5.0'' ''>=''"
    by (simp add: version_Compare_def example_defs dotted_defs)
  ultimately show ?thesis
    using
      versionSupported_names_first_old_build
        [of rev dottedCompare exampleCluster 0 "''4.5.0''", OF mset_rev]
      versionSupported_names_first_old_build
        [of rev dottedCompare exampleCluster 0 "''4.6.0''", OF mset_rev]
    by simp
qed

subsection \<open>Namespace aggregation\<close>

lemma recordOf_leastRecord [simp]: "recordOf (leastRecord r) = r"
  by (cases r) (auto simp: recordOf_def leastRecord_def entry_def)

lemma keep_twice: "keep (keep r x) x = keep r x"
  by (cases r) (auto simp: keep_def)

lemma leastAvailablePct_keep:
  assumes "stat nsStats ''least_available_pct'' = VNil \<and> r = None
           \<or> stat nsStats ''least_available_pct'' = leastRecord r"
  shows "\<exists>m. leastAvailablePct stats nsStats address = Returned m
           \<and> VMap m = leastRecord (keep r (address, TryFloat stats ''available_pct'' (- 1)))"
proof (cases "0 \<le> TryFloat stats ''available_pct'' (- 1)")
  case False
  then show ?thesis
    by (simp add: leastAvailablePct_def keep_def leastRecord_def)
next
  case True
  from assms show ?thesis
  proof
    assume "stat nsStats ''least_available_pct'' = VNil \<and> r = None"
    with True show ?thesis
      by (simp add: leastAvailablePct_def lower_def entry_def keep_def leastRecord_def)
  next
    assume "stat nsStats ''least_available_pct'' = leastRecord r"
    with True show ?thesis
      by (cases r)
         (auto simp: leastAvailablePct_def lower_def entry_def keep_def leastRecord_def)
  qed
qed

lemma namespaceOfNode_absent:
  "NamespaceByName node name = None \<Longrightarrow>
   namespaceOfNode AggregateStats Comma c node (Returned res) name = Returned res"
  by (simp add: namespaceOfNode_def)

lemma namespaceOfNode_present:
  assumes k: "keepsLeast AggregateStats"
      and n: "reportsNoRecord node"
      and w: "wellFormed res"
      and p: "NamespaceByName node name = Some stats"
  shows "\<exists>st. namespaceOfNode AggregateStats Comma c node (Returned res) name
               = Returned (res(name \<mapsto> st))
           \<and> stat st ''least_available_pct''
               = leastRecord (keep (tracked res name)
                   (Node_Address node, TryFloat stats ''available_pct'' (- 1)))"
proof -
  define nsStats where
    "nsStats = (case res name of None \<Rightarrow> stats | Some nsStats \<Rightarrow> AggregateStats nsStats stats)"
  from n p have clean: "stat stats ''least_available_pct'' = VNil"
    by (auto simp: reportsNoRecord_def)
  have "stat nsStats ''least_available_pct'' = VNil \<and> tracked res name = None
           \<or> stat nsStats ''least_available_pct'' = leastRecord (tracked res name)"
  proof (cases "res name")
    case None
    with clean show ?thesis by (simp add: nsStats_def tracked_def)
  next
    case (Some s)
    with w obtain r where r: "stat s ''least_available_pct'' = leastRecord r"
      by (auto simp: wellFormed_def)
    with Some have "tracked res name = r" by (simp add: tracked_def)
    moreover from k clean have "stat (AggregateStats s stats) ''least_available_pct''
        = stat s ''least_available_pct''"
      by (simp add: keepsLeast_def)
    ultimately show ?thesis using Some r by (simp add: nsStats_def)
  qed
  from leastAvailablePct_keep [OF this, of stats "Node_Address node"]
  obtain m where m: "leastAvailablePct stats nsStats (Node_Address node) = Returned m"
    "VMap m = leastRecord (keep (tracked res name)
                (Node_Address node, TryFloat stats ''available_pct'' (- 1)))"
    by blast
  have "namespaceOfNode AggregateStats Comma c node (Returned res) name
          = Returned (res(name \<mapsto>
              nsStats(''master-objects-tombstones'' \<mapsto>
                        tombstones Comma nsStats ''master-objects'' ''master_tombstones'',
                      ''prole-objects-tombstones'' \<mapsto>
                        tombstones Comma
                          (nsStats(''master-objects-tombstones'' \<mapsto>
                             tombstones Comma nsStats ''master-objects'' ''master_tombstones''))
                          ''prole-objects'' ''prole_tombstones'',
                      ''least_available_pct'' \<mapsto> VMap m,
                      ''cluster_status'' \<mapsto> VStr (Cluster_Status c))))"
    using p m(1) by (simp add: namespaceOfNode_def Let_def nsStats_def [symmetric])
  then show ?thesis
    using m(2) by (intro exI conjI) (assumption, simp add: stat_def)
qed

lemma wellFormed_update:
  "wellFormed res \<Longrightarrow> stat st ''least_available_pct'' = leastRecord r \<Longrightarrow>
   wellFormed (res(name \<mapsto> st))"
  by (auto simp: wellFormed_def)

lemma tracked_update:
  "stat st ''least_available_pct'' = leastRecord r \<Longrightarrow>
   tracked (res(name \<mapsto> st)) nsName = (if nsName = name then r else tracked res nsName)"
  by (simp add: tracked_def)

lemma names_of_node:
  assumes k: "keepsLeast AggregateStats" and n: "reportsNoRecord node"
  shows "wellFormed res \<Longrightarrow>
     \<exists>res'. foldl (namespaceOfNode AggregateStats Comma c node) (Returned res) names
               = Returned res'
       \<and> wellFormed res'
       \<and> tracked res' nsName
           = (if nsName \<in> set names \<and> NamespaceByName node nsName \<noteq> None
              then keep (tracked res nsName) (Node_Address node, availablePct node nsName)
              else tracked res nsName)
       \<and> (res' nsName \<noteq> None)
           = (res nsName \<noteq> None
              \<or> nsName \<in> set names \<and> NamespaceByName node nsName \<noteq> None)"
proof (induction names arbitrary: res)
  case Nil
  then show ?case by simp
next
  case (Cons name names)
  show ?case
  proof (cases "NamespaceByName node name")
    case None
    with Cons.IH [OF Cons.prems] show ?thesis
      by (auto simp: namespaceOfNode_absent)
  next
    case (Some stats)
    let ?x = "(Node_Address node, TryFloat stats ''available_pct'' (- 1))"
    from namespaceOfNode_present [OF k n Cons.prems Some, of Comma c]
    obtain st where st: "namespaceOfNode AggregateStats Comma c node (Returned res) name
               = Returned (res(name \<mapsto> st))"
      "stat st ''least_available_pct'' = leastRecord (keep (tracked res name) ?x)"
      by blast
    have w1: "wellFormed (res(name \<mapsto> st))"
      using Cons.prems st(2) by (rule wellFormed_update)
    have t1: "tracked (res(name \<mapsto> st)) nsName
        = (if nsName = name then keep (tracked res name) ?x else tracked res nsName)"
      using st(2) by (rule tracked_update)
    from Cons.IH [OF w1] obtain res' where res':
      "foldl (namespaceOfNode AggregateStats Comma c node) (Returned (res(name \<mapsto> st))) names
         = Returned res'"
      "wellFormed res'"
      "tracked res' nsName
         = (if nsName \<in> set names \<and> NamespaceByName node nsName \<noteq> None
            then keep (tracked (res(name \<mapsto> st)) nsName) (Node_Address node, availablePct node nsName)
            else tracked (res(name \<mapsto> st)) nsName)"
      "(res' nsName \<noteq> None)
         = ((res(name \<mapsto> st)) nsName \<noteq> None
            \<or> nsName \<in> set names \<and> NamespaceByName node nsName \<noteq> None)"
      by blast
    have x: "availablePct node name = TryFloat stats ''available_pct'' (- 1)"
      using Some by (simp add: availablePct_def)
    have "foldl (namespaceOfNode AggregateStats Comma c node) (Returned res) (name # names)
         = Returned res'"
      using st(1) res'(1) by simp
    moreover have "tracked res' nsName
           = (if nsName \<in> set (name # names) \<and> NamespaceByName node nsName \<noteq> None
              then keep (tracked res nsName) (Node_Address node, availablePct node nsName)
              else tracked res nsName)"
      unfolding res'(3) t1 using Some x by (auto simp: keep_twice)
    moreover have "(res' nsName \<noteq> None)
           = (res nsName \<noteq> None
              \<or> nsName \<in> set (name # names) \<and> NamespaceByName node nsName \<noteq> None)"
      unfolding res'(4) using Some by auto
    ultimately show ?thesis using res'(2) by blast
  qed
qed

lemma nodes_of_cluster:
  assumes k: "keepsLeast AggregateStats" and i: "nsName \<in> set namespaces"
  shows "\<forall>node \<in> set ns. reportsNoRecord node \<Longrightarrow> wellFormed res \<Longrightarrow>
     \<exists>res'. foldl (\<lambda>acc node. foldl (namespaceOfNode AggregateStats Comma c node) acc namespaces)
               (Returned res) ns
               = Returned res'
       \<and> wellFormed res'
       \<and> tracked res' nsName = foldl keep (tracked res nsName) (reports ns nsName)
       \<and> (res' nsName \<noteq> None)
           = (res nsName \<noteq> None \<or> (\<exists>node \<in> set ns. NamespaceByName node nsName \<noteq> None))"
proof (induction ns arbitrary: res)
  case Nil
  then show ?case by (simp add: reports_def)
next
  case (Cons node ns)
  from Cons.prems have n: "reportsNoRecord node" by simp
  from names_of_node [OF k n Cons.prems(2), of Comma c namespaces nsName]
  obtain res1 where res1:
    "foldl (namespaceOfNode AggregateStats Comma c node) (Returned res) namespaces = Returned res1"
    "wellFormed res1"
    "tracked res1 nsName
       = (if NamespaceByName node nsName \<noteq> None
          then keep (tracked res nsName) (Node_Address node, availablePct node nsName)
          else tracked res nsName)"
    "(res1 nsName \<noteq> None) = (res nsName \<noteq> None \<or> NamespaceByName node nsName \<noteq> None)"
    using i by auto
  from Cons.prems have "\<forall>node \<in> set ns. reportsNoRecord node" by simp
  from Cons.IH [OF this res1(2)] obtain res' where res':
    "foldl (\<lambda>acc node. foldl (namespaceOfNode AggregateStats Comma c node) acc namespaces)
       (Returned res1) ns = Returned res'"
    "wellFormed res'"
    "tracked res' nsName = foldl keep (tracked res1 nsName) (reports ns nsName)"
    "(res' nsName \<noteq> None)
       = (res1 nsName \<noteq> None \<or> (\<exists>node \<in> set ns. NamespaceByName node nsName \<noteq> None))"
    by blast
  have "foldl (\<lambda>acc node. foldl (namespaceOfNode AggregateStats Comma c node) acc namespaces)
               (Returned res) (node # ns) = Returned res'"
    using res1(1) res'(1) by simp
  moreover have "tracked res' nsName = foldl keep (tracked res nsName) (reports (node # ns) nsName)"
    unfolding res'(3) res1(3) by (simp add: reports_def)
  moreover have "(res' nsName \<noteq> None)
           = (res nsName \<noteq> None
              \<or> (\<exists>node \<in> set (node # ns). NamespaceByName node nsName \<noteq> None))"
    unfolding res'(4) res1(4) by auto
  ultimately show ?case using res'(2) by blast
qed

text \<open>
  The record \<^verbatim>\<open>NamespaceInfo\<close> returns for a requested namespace is the fold of
  \<open>keep\<close> over the nodes that have the namespace.
\<close>

lemma NamespaceInfo_least_available_pct:
  assumes k: "keepsLeast AggregateStats"
      and n: "\<forall>node \<in> set (Nodes c). reportsNoRecord node"
      and i: "nsName \<in> set namespaces"
  shows "leastAvailableOf (NamespaceInfo AggregateStats Comma c namespaces) nsName
     = (if \<exists>node \<in> set (Nodes c). NamespaceByName node nsName \<noteq> None
        then Some (leastRecord (foldl keep None (reports (Nodes c) nsName)))
        else None)"
proof -
  have w0: "wellFormed Map.empty" by (simp add: wellFormed_def)
  from nodes_of_cluster [OF k i n w0, of Comma c] obtain res where res:
    "foldl (\<lambda>acc node. foldl (namespaceOfNode AggregateStats Comma c node) acc namespaces)
       (Returned Map.empty) (Nodes c) = Returned res"
    "wellFormed res"
    "tracked res nsName = foldl keep None (reports (Nodes c) nsName)"
    "(res nsName \<noteq> None) = (\<exists>node \<in> set (Nodes c). NamespaceByName node nsName \<noteq> None)"
    by (auto simp: tracked_def)
  show ?thesis
  proof (cases "res nsName")
    case None
    with res(1,4) show ?thesis
      by (simp add: NamespaceInfo_def leastAvailableOf_def Let_def)
  next
    case (Some st)
    with res(2) obtain r where r: "stat st ''least_available_pct'' = leastRecord r"
      by (auto simp: wellFormed_def)
    with Some res(3) have "r = foldl keep None (reports (Nodes c) nsName)"
      by (simp add: tracked_def)
    with Some r res(1,4) show ?thesis
      by (simp add: NamespaceInfo_def leastAvailableOf_def Let_def stat_def)
  qed
qed

text \<open>
  When every such node reports a value, the fold yields the first node of least value.
  A node that reports none resets the fold: the record is that of the nodes after it.
\<close>

lemma keep_first_minimum:
  assumes "xs \<noteq> []" and "\<forall>x \<in> set xs. 0 \<le> snd x"
  shows "\<exists>i < length xs. foldl keep None xs = Some (xs ! i)
           \<and> (\<forall>j < length xs. snd (xs ! i) \<le> snd (xs ! j))
           \<and> (\<forall>j < i. snd (xs ! i) < snd (xs ! j))"
  using assms
proof (induction xs rule: rev_induct)
  case Nil
  then show ?case by simp
next
  case (snoc x xs)
  from snoc.prems have x: "0 \<le> snd x" by simp
  show ?case
  proof (cases "xs = []")
    case True
    with x show ?thesis by (simp add: keep_def)
  next
    case False
    with snoc obtain i where i: "i < length xs" "foldl keep None xs = Some (xs ! i)"
      "\<forall>j < length xs. snd (xs ! i) \<le> snd (xs ! j)" "\<forall>j < i. snd (xs ! i) < snd (xs ! j)"
      by auto
    show ?thesis
    proof (cases "snd x < snd (xs ! i)")
      case True
      with i x have "foldl keep None (xs @ [x]) = Some ((xs @ [x]) ! length xs)"
        by (simp add: keep_def)
      moreover from True i(3)
      have "\<forall>j < length (xs @ [x]). snd ((xs @ [x]) ! length xs) \<le> snd ((xs @ [x]) ! j)"
        by (auto simp: nth_append less_Suc_eq)
      moreover from True i(3)
      have "\<forall>j < length xs. snd ((xs @ [x]) ! length xs) < snd ((xs @ [x]) ! j)"
        by (auto simp: nth_append)
      ultimately show ?thesis by (intro exI [of _ "length xs"]) simp
    next
      case False
      with i x have "foldl keep None (xs @ [x]) = Some ((xs @ [x]) ! i)"
        by (simp add: keep_def nth_append)
      moreover from False i
      have "\<forall>j < length (xs @ [x]). snd ((xs @ [x]) ! i) \<le> snd ((xs @ [x]) ! j)"
        by (auto simp: nth_append less_Suc_eq)
      moreover from i
      have "\<forall>j < i. snd ((xs @ [x]) ! i) < snd ((xs @ [x]) ! j)"
        by (auto simp: nth_append)
      ultimately show ?thesis using i(1) by (intro exI [of _ i]) simp
    qed
  qed
qed

lemma keep_reset: "snd x < 0 \<Longrightarrow> foldl keep r (xs @ x # ys) = foldl keep None ys"
  by (simp add: keep_def)

lemma NamespaceInfo_first_minimum_when_all_report:
  assumes "keepsLeast AggregateStats"
      and "\<forall>node \<in> set (Nodes c). reportsNoRecord node"
      and "nsName \<in> set namespaces"
      and "reports (Nodes c) nsName \<noteq> []"
      and "\<forall>x \<in> set (reports (Nodes c) nsName). 0 \<le> snd x"
  shows "\<exists>i < length (reports (Nodes c) nsName).
           leastAvailableOf (NamespaceInfo AggregateStats Comma c namespaces) nsName
             = Some (leastRecord (Some (reports (Nodes c) nsName ! i)))
           \<and> (\<forall>j < length (reports (Nodes c) nsName).
                 snd (reports (Nodes c) nsName ! i) \<le> snd (reports (Nodes c) nsName ! j))
           \<and> (\<forall>j < i. snd (reports (Nodes c) nsName ! i) < snd (reports (Nodes c) nsName ! j))"
proof -
  from assms(4) have "\<exists>node \<in> set (Nodes c). NamespaceByName node nsName \<noteq> None"
    by (auto simp: reports_def filter_empty_conv)
  with NamespaceInfo_least_available_pct [OF assms(1-3), of Comma]
  have "leastAvailableOf (NamespaceInfo AggregateStats Comma c namespaces) nsName
          = Some (leastRecord (foldl keep None (reports (Nodes c) nsName)))"
    by simp
  with keep_first_minimum [OF assms(4,5)] show ?thesis
    by auto
qed

lemmas ns_defs = NamespaceInfo_def namespaceOfNode_def leastAvailablePct_def lower_def
  NamespaceByName_def TryFloat_def stat_def entry_def leastAvailableOf_def

text \<open>
  C1. The claim: the record is the node and value of the least \<^verbatim>\<open>available_pct\<close>
  among the nodes that report one, and a node that reports none does not affect it. In
  the code the record of every round starts as \<^verbatim>\<open>{node: nil, value: nil}\<close> and is
  stored at the end of the round whether or not the node reports a value, so a node that
  reports none resets it. On the example cluster the node at 10.0.0.1 reports 10, the
  node at 10.0.0.2 has the namespace and reports no value, and the node at 10.0.0.3 has
  no such namespace: the result holds the empty record, not 10.0.0.1 with 10. This
  holds whatever \<^verbatim>\<open>AggregateStats\<close> and \<^verbatim>\<open>Comma\<close> do.
\<close>

theorem NamespaceInfo_resets_least_available_pct:
  "leastAvailableOf (NamespaceInfo AggregateStats Comma exampleCluster [''test'']) ''test''
     = Some (VMap [(''node'', VNil), (''value'', VNil)])
   \<and> TryFloat (the (NamespaceByName nodeA ''test'')) ''available_pct'' (- 1) = 10
   \<and> NamespaceByName nodeB ''test'' \<noteq> None
   \<and> TryFloat (the (NamespaceByName nodeB ''test'')) ''available_pct'' (- 1) = - 1
   \<and> NamespaceByName nodeC ''test'' = None"
  by (simp add: ns_defs example_defs Let_def)

text \<open>With the reporting node alone, the record is that node and its value.\<close>

lemma NamespaceInfo_one_reporting_node:
  "leastAvailableOf (NamespaceInfo AggregateStats Comma (exampleCluster\<lparr>nodes := [(NewHost ''10.0.0.1'' 3000, nodeA)]\<rparr>) [''test'']) ''test''
     = Some (VMap [(''node'', VStr ''10.0.0.1:3000''), (''value'', VFloat 10)])"
  by (simp add: ns_defs example_defs Let_def)


end
